theory Spec2Isabelle
  imports Main "HOL-Library.AList"
begin

section \<open>Batch conversion of TIFF files to PNG: scripts/convert_tiff_to_png.py\<close>

text \<open>
  The script walks the directory \<open>public/patterns\<close>, and for every regular file whose
  suffix is \<open>.tif\<close> or \<open>.tiff\<close> writes a PNG file at the mirrored place under
  \<open>public/patterns_png\<close>. Everything the script does besides counting is an effect on
  the file system, on standard output, or a call into the image library; the model
  makes each of them a component of an explicit world that the functions pass along.
  The image library (Pillow) is not part of the script: its behaviour is a parameter
  of the model, a record of functions, so that every statement holds for whatever the
  library does.
\<close>

subsection \<open>Strings\<close>

text \<open>
  \<open>str.lower()\<close>. The script only compares the lowered suffix with the ASCII literals
  \<open>.tif\<close> and \<open>.tiff\<close>. No character outside ASCII lowers to one of the letters
  \<open>t\<close>, \<open>i\<close>, \<open>f\<close> or to the dot, so lowering the letters \<open>A\<close> to \<open>Z\<close> and keeping
  every other byte decides that comparison as Python does.
\<close>

definition lower_char :: "char \<Rightarrow> char" where
  "lower_char c =
     (case map_of (zip ''ABCDEFGHIJKLMNOPQRSTUVWXYZ'' ''abcdefghijklmnopqrstuvwxyz'') c of
        Some l \<Rightarrow> l
      | None \<Rightarrow> c)"

definition lower :: "string \<Rightarrow> string" where
  "lower s = map lower_char s"

text \<open>\<open>sep.join(xs)\<close>.\<close>

fun join :: "string \<Rightarrow> string list \<Rightarrow> string" where
  "join sep [] = []"
| "join sep [x] = x"
| "join sep (x # y # ys) = x @ sep @ join sep (y # ys)"

text \<open>\<open>str(n)\<close> for an integer \<open>n\<close>, as the f-strings of the report format the counters.\<close>

definition digit_char :: "nat \<Rightarrow> char" where
  "digit_char d = ''0123456789'' ! d"

function str_nat :: "nat \<Rightarrow> string" where
  "str_nat n = (if n < 10 then [digit_char n] else str_nat (n div 10) @ [digit_char (n mod 10)])"
  by pat_completeness auto
termination
  by (relation "measure id") auto

declare str_nat.simps [simp del]

definition str_int :: "int \<Rightarrow> string" where
  "str_int i = (if i < 0 then ''-'' @ str_nat (nat (- i)) else str_nat (nat i))"

subsection \<open>Exceptions\<close>

text \<open>
  Every exception of the model derives from Python's \<open>Exception\<close>: the errors of the
  operating system, \<open>ValueError\<close> of pathlib, \<open>UnicodeEncodeError\<close> of \<open>print\<close>, and
  whatever the image library raises. \<open>except Exception\<close> catches each of them where
  it is raised inside a \<open>try\<close>.
\<close>

datatype oserr = ENOENT | ENOTDIR | EISDIR | EEXIST | ENAMETOOLONG | EACCES | EBADF | ELOOP

datatype exn =
    OSError oserr string
  | ValueError string
  | UnicodeEncodeError string
  | ImageError string

fun str_oserr :: "oserr \<Rightarrow> string" where
  "str_oserr ENOENT = ''[Errno 2] No such file or directory''"
| "str_oserr ENOTDIR = ''[Errno 20] Not a directory''"
| "str_oserr EISDIR = ''[Errno 21] Is a directory''"
| "str_oserr EEXIST = ''[Errno 17] File exists''"
| "str_oserr ENAMETOOLONG = ''[Errno 36] File name too long''"
| "str_oserr EACCES = ''[Errno 13] Permission denied''"
| "str_oserr EBADF = ''[Errno 9] Bad file descriptor''"
| "str_oserr ELOOP = ''[Errno 40] Too many levels of symbolic links''"

text \<open>\<open>str(e)\<close>, the error detail that the failure line prints.\<close>

fun str_exn :: "exn \<Rightarrow> string" where
  "str_exn (OSError k p) = str_oserr k @ '': '' @ [CHR 0x27] @ p @ [CHR 0x27]"
| "str_exn (ValueError m) = m"
| "str_exn (UnicodeEncodeError m) = m"
| "str_exn (ImageError m) = m"

subsection \<open>Pure paths (pathlib)\<close>

text \<open>
  A relative \<open>Path\<close> is the list of its parts. The operations follow pathlib
  (CPython 3.8 to 3.12) on POSIX.
\<close>

type_synonym path = "string list"

definition str_path :: "path \<Rightarrow> string" where
  "str_path p = (if p = [] then ''.'' else join ''/'' p)"

definition name :: "path \<Rightarrow> string" where
  "name p = (if p = [] then [] else last p)"

definition parent :: "path \<Rightarrow> path" where
  "parent p = butlast p"

text \<open>\<open>s.rfind(c)\<close>: the highest index of \<open>c\<close> in \<open>s\<close>, or \<open>-1\<close>.\<close>

definition rfind :: "string \<Rightarrow> char \<Rightarrow> int" where
  "rfind s c =
     (if c \<in> set s then int (length s) - 1 - int (length (takeWhile (\<lambda>x. x \<noteq> c) (rev s)))
      else - 1)"

definition suffix :: "path \<Rightarrow> string" where
  "suffix p =
     (let nm = name p; i = rfind nm (CHR ''.'')
      in if 0 < i \<and> i < int (length nm) - 1 then drop (nat i) nm else [])"

definition with_suffix :: "path \<Rightarrow> string \<Rightarrow> exn + path" where
  "with_suffix p suf =
     (if CHR ''/'' \<in> set suf then Inl (ValueError (''Invalid suffix '' @ suf))
      else if (suf \<noteq> [] \<and> hd suf \<noteq> CHR ''.'') \<or> suf = ''.''
        then Inl (ValueError (''Invalid suffix '' @ suf))
      else if name p = [] then Inl (ValueError (str_path p @ '' has an empty name''))
      else
        let old_suffix = suffix p;
            nm = (if old_suffix = [] then name p @ suf
                  else take (length (name p) - length old_suffix) (name p) @ suf)
        in Inr (butlast p @ [nm]))"

definition relative_to :: "path \<Rightarrow> path \<Rightarrow> exn + path" where
  "relative_to p other =
     (if take (length other) p = other then Inr (drop (length other) p)
      else Inl (ValueError (str_path p @ '' is not in the subpath of '' @ str_path other)))"

text \<open>\<open>a / b\<close> for a relative \<open>b\<close>.\<close>

definition joinpath :: "path \<Rightarrow> path \<Rightarrow> path" where
  "joinpath a b = a @ b"

subsection \<open>The file system\<close>

text \<open>
  The tree below the working directory: a regular file with its content, or a
  directory with its entries in the order in which \<open>scandir\<close> lists them. There are no
  symbolic links. The tree holds the entries that the operating system reaches by
  their path; what it answers for a path that the tree does not hold is part of the
  world, below.
\<close>

type_synonym bytes = string

datatype node = File bytes | Dir "(string \<times> node) list"

fun stat :: "node \<Rightarrow> path \<Rightarrow> oserr + node" where
  "stat n [] = Inr n"
| "stat (File b) (x # xs) = Inl ENOTDIR"
| "stat (Dir es) (x # xs) =
     (case map_of es x of None \<Rightarrow> Inl ENOENT | Some c \<Rightarrow> stat c xs)"

text \<open>
  What the tree holds at a path: anything, a regular file, a directory. These are
  properties of the tree; the methods \<open>Path.exists()\<close> and \<open>Path.is_file()\<close> as the
  script calls them, which can also raise, are \<open>exists_call\<close> and \<open>is_file_call\<close> below.
\<close>

definition path_exists :: "node \<Rightarrow> path \<Rightarrow> bool" where
  "path_exists t p = (case stat t p of Inr n \<Rightarrow> True | Inl e \<Rightarrow> False)"

definition is_file :: "node \<Rightarrow> path \<Rightarrow> bool" where
  "is_file t p = (case stat t p of Inr (File b) \<Rightarrow> True | _ \<Rightarrow> False)"

definition is_dir :: "node \<Rightarrow> path \<Rightarrow> bool" where
  "is_dir t p = (case stat t p of Inr (Dir es) \<Rightarrow> True | _ \<Rightarrow> False)"

text \<open>
  \<open>p.mkdir(parents=True, exist_ok=True)\<close>: every missing directory of the chain is
  created; a directory that exists is kept; a regular file in the way is an error
  (EEXIST at the last part, ENOTDIR before), and then nothing has been created.
\<close>

fun mkdir_parents :: "node \<Rightarrow> path \<Rightarrow> oserr + node" where
  "mkdir_parents (Dir es) [] = Inr (Dir es)"
| "mkdir_parents (File b) [] = Inl EEXIST"
| "mkdir_parents (File b) (x # xs) = Inl ENOTDIR"
| "mkdir_parents (Dir es) (x # xs) =
     (case mkdir_parents (case map_of es x of None \<Rightarrow> Dir [] | Some c \<Rightarrow> c) xs of
        Inl e \<Rightarrow> Inl e
      | Inr c' \<Rightarrow> Inr (Dir (AList.update x c' es)))"

text \<open>
  \<open>open(p, "w+b")\<close> followed by writing \<open>b\<close>: the parent must be a directory and \<open>p\<close>
  must not be one; a regular file at \<open>p\<close> is replaced.
\<close>

fun write_file :: "node \<Rightarrow> path \<Rightarrow> bytes \<Rightarrow> oserr + node" where
  "write_file n [] b = Inl EISDIR"
| "write_file (File c) (x # xs) b = Inl ENOTDIR"
| "write_file (Dir es) [x] b =
     (case map_of es x of
        Some (Dir ds) \<Rightarrow> Inl EISDIR
      | _ \<Rightarrow> Inr (Dir (AList.update x (File b) es)))"
| "write_file (Dir es) (x # y # ys) b =
     (case map_of es x of
        None \<Rightarrow> Inl ENOENT
      | Some c \<Rightarrow>
          (case write_file c (y # ys) b of
             Inl e \<Rightarrow> Inl e
           | Inr c' \<Rightarrow> Inr (Dir (AList.update x c' es))))"

text \<open>
  \<open>root.rglob("*")\<close>: every entry below \<open>root\<close>, the entries of a directory first and
  then the walk of each of its subdirectories, in listing order; nothing when \<open>root\<close>
  is not a directory. Whether an entry is a directory is read off the entry itself.
\<close>

fun walk :: "node \<Rightarrow> path list"
  and walk_entries :: "(string \<times> node) list \<Rightarrow> path list" where
  "walk (File b) = []"
| "walk (Dir es) = map (\<lambda>e. [fst e]) es @ walk_entries es"
| "walk_entries [] = []"
| "walk_entries (e # es) = map ((#) (fst e)) (walk (snd e)) @ walk_entries es"

definition rglob :: "node \<Rightarrow> path \<Rightarrow> path list" where
  "rglob t root =
     (case stat t root of
        Inr (Dir es) \<Rightarrow> map (joinpath root) (walk (Dir es))
      | _ \<Rightarrow> [])"

subsection \<open>The world and the image library\<close>

text \<open>
  The calls into the file system that change it and the calls into the image library
  are recorded in the order in which the script makes them.
\<close>

datatype 'img event =
    CallMkdir path
  | CallOpen path
  | CallSeek 'img nat
  | CallConvert 'img string
  | CallSave 'img path

text \<open>
  Two components of the world describe the environment and never change.
  \<open>os_error p\<close> is the error, if any, with which the operating system refuses the
  path \<open>p\<close> itself when the tree holds nothing there (ENAMETOOLONG for a path over the
  length limit, for instance). \<open>encodable c\<close> says whether the encoding of standard
  output has the character \<open>c\<close>.
\<close>

record 'img world =
  fs :: node
  cwd :: path
  stdout :: "string list"
  calls :: "'img event list"
  os_error :: "path \<Rightarrow> oserr option"
  encodable :: "char \<Rightarrow> bool"

definition call :: "'img event \<Rightarrow> 'img world \<Rightarrow> 'img world" where
  "call ev w = w\<lparr>calls := calls w @ [ev]\<rparr>"

text \<open>
  \<open>print(line)\<close>: the line is encoded when it is written, and \<open>UnicodeEncodeError\<close> is
  raised, with nothing written, when a character of it has no encoding (a file name
  that is not valid in the file system encoding, for instance).
\<close>

definition print :: "string \<Rightarrow> 'img world \<Rightarrow> (exn + unit) \<times> 'img world" where
  "print line w =
     (if list_all (encodable w) line then (Inr (), w\<lparr>stdout := stdout w @ [line]\<rparr>)
      else (Inl (UnicodeEncodeError ''codec cannot encode a character of the line''), w))"

fun prints :: "string list \<Rightarrow> 'img world \<Rightarrow> (exn + unit) \<times> 'img world" where
  "prints [] w = (Inr (), w)"
| "prints (l # ls) w =
     (case print l w of
        (Inl e, w') \<Rightarrow> (Inl e, w')
      | (Inr u, w') \<Rightarrow> prints ls w')"

text \<open>
  \<open>Path.stat()\<close> as \<open>exists()\<close> and \<open>is_file()\<close> use it: the errors of pathlib's
  \<open>_ignore_error\<close> are those that they take for the answer that nothing is there; any
  other error of the operating system is raised again.
\<close>

definition ignore_error :: "oserr \<Rightarrow> bool" where
  "ignore_error e \<longleftrightarrow> e = ENOENT \<or> e = ENOTDIR \<or> e = EBADF \<or> e = ELOOP"

definition stat_call :: "'img world \<Rightarrow> path \<Rightarrow> exn + node option" where
  "stat_call w p =
     (case stat (fs w) p of
        Inr n \<Rightarrow> Inr (Some n)
      | Inl e \<Rightarrow>
          (case os_error w p of
             None \<Rightarrow> Inr None
           | Some e' \<Rightarrow>
               if ignore_error e' then Inr None
               else Inl (OSError e' (str_path p))))"

definition exists_call :: "'img world \<Rightarrow> path \<Rightarrow> exn + bool" where
  "exists_call w p =
     (case stat_call w p of Inl e \<Rightarrow> Inl e | Inr None \<Rightarrow> Inr False | Inr (Some n) \<Rightarrow> Inr True)"

definition is_file_call :: "'img world \<Rightarrow> path \<Rightarrow> exn + bool" where
  "is_file_call w p =
     (case stat_call w p of
        Inl e \<Rightarrow> Inl e
      | Inr (Some (File b)) \<Rightarrow> Inr True
      | Inr r \<Rightarrow> Inr False)"

text \<open>
  A failed \<open>save\<close> leaves the destination as it was (\<open>None\<close>) or leaves a partial
  file there, depending on the encoder.
\<close>

datatype save_result = Encoded bytes | EncodeError exn "bytes option"

record 'img pillow =
  pil_decode :: "path \<Rightarrow> bytes \<Rightarrow> exn + 'img"
  pil_seek :: "'img \<Rightarrow> nat \<Rightarrow> exn + 'img"
  pil_mode :: "'img \<Rightarrow> string"
  pil_convert :: "'img \<Rightarrow> string \<Rightarrow> exn + 'img"
  pil_encode_png :: "'img \<Rightarrow> save_result"

text \<open>
  \<open>Image.open(src)\<close>: the file is opened for reading and its header decoded. The
  library knows the path as well as the content (its error messages name the file).
\<close>

definition image_open :: "'img pillow \<Rightarrow> node \<Rightarrow> path \<Rightarrow> exn + 'img" where
  "image_open lib t src =
     (case stat t src of
        Inl e \<Rightarrow> Inl (OSError e (str_path src))
      | Inr (Dir es) \<Rightarrow> Inl (OSError EISDIR (str_path src))
      | Inr (File b) \<Rightarrow> pil_decode lib src b)"

text \<open>\<open>im.save(dst, format="PNG", optimize=True)\<close>.\<close>

definition image_save :: "'img pillow \<Rightarrow> node \<Rightarrow> 'img \<Rightarrow> path \<Rightarrow> (exn + unit) \<times> node" where
  "image_save lib t im dst =
     (case pil_encode_png lib im of
        EncodeError e left \<Rightarrow>
          (Inl e,
           case left of
             None \<Rightarrow> t
           | Some partial \<Rightarrow> (case write_file t dst partial of Inl e' \<Rightarrow> t | Inr t' \<Rightarrow> t'))
      | Encoded b \<Rightarrow>
          (case write_file t dst b of
             Inl e \<Rightarrow> (Inl (OSError e (str_path dst)), t)
           | Inr t' \<Rightarrow> (Inr (), t')))"

subsection \<open>The script\<close>

definition IN_DIR :: path where
  "IN_DIR = [''public'', ''patterns'']"

definition OUT_DIR :: path where
  "OUT_DIR = [''public'', ''patterns_png'']"

definition SKIP_EXISTING :: bool where
  "SKIP_EXISTING = True"

text \<open>
  \<open>convert_one(src, dst)\<close>. The result is the exception that leaves the function, if
  any, together with the world as the function leaves it.
\<close>

definition convert_one ::
  "'img pillow \<Rightarrow> path \<Rightarrow> path \<Rightarrow> 'img world \<Rightarrow> (exn + unit) \<times> 'img world" where
  "convert_one lib src dst w =
     (let w1 = call (CallMkdir (parent dst)) w in
      case mkdir_parents (fs w1) (parent dst) of
        Inl e \<Rightarrow> (Inl (OSError e (str_path (parent dst))), w1)
      | Inr t \<Rightarrow>
          let w2 = call (CallOpen src) (w1\<lparr>fs := t\<rparr>) in
          (case image_open lib (fs w2) src of
             Inl e \<Rightarrow> (Inl e, w2)
           | Inr im0 \<Rightarrow>
               let w3 = call (CallSeek im0 0) w2;
                   im1 = (case pil_seek lib im0 0 of Inl e \<Rightarrow> im0 | Inr im' \<Rightarrow> im')
               in
               (case (if pil_mode lib im1 \<notin> {''RGB'', ''RGBA''}
                      then (pil_convert lib im1 ''RGB'', call (CallConvert im1 ''RGB'') w3)
                      else (Inr im1, w3)) of
                  (Inl e, w4) \<Rightarrow> (Inl e, w4)
                | (Inr im2, w4) \<Rightarrow>
                    let w5 = call (CallSave im2 dst) w4;
                        (r, t') = image_save lib (fs w5) im2 dst
                    in (r, w5\<lparr>fs := t'\<rparr>))))"

record tally =
  count_total :: int
  count_done :: int
  count_skipped :: int
  count_failed :: int

text \<open>Lines 50 and 51: the destination of a source file, for the two roots.\<close>

definition dest_of :: "path \<Rightarrow> path \<Rightarrow> path \<Rightarrow> exn + path" where
  "dest_of in_dir out_dir src =
     (case relative_to src in_dir of
        Inl e \<Rightarrow> Inl e
      | Inr rel \<Rightarrow>
          (case with_suffix rel ''.png'' of
             Inl e \<Rightarrow> Inl e
           | Inr rel' \<Rightarrow> Inr (joinpath out_dir rel')))"

text \<open>
  The body of the loop of \<open>main\<close> for one entry \<open>src\<close> of the walk. Only the call of
  \<open>convert_one\<close> is inside the \<open>try\<close>: an exception of \<open>is_file()\<close> on line 42, of lines
  50 and 51, of \<open>exists()\<close> on line 53, or of \<open>print\<close> on line 62 in the handler leaves
  \<open>main\<close>. The counters are local variables of \<open>main\<close>, so that an exception that
  leaves it takes them along, the increment of line 61 included, which precedes the
  \<open>print\<close>. In \<open>SKIP_EXISTING and dst.exists()\<close> the call is made only when the flag is
  set.
\<close>

definition loop_body ::
  "'img pillow \<Rightarrow> path \<Rightarrow> tally \<Rightarrow> 'img world \<Rightarrow> (exn + tally) \<times> 'img world" where
  "loop_body lib src c w =
     (case is_file_call w src of
        Inl e \<Rightarrow> (Inl e, w)
      | Inr f \<Rightarrow>
          if \<not> f then (Inr c, w)
          else if lower (suffix src) \<notin> {''.tif'', ''.tiff''} then (Inr c, w)
          else
            let c1 = c\<lparr>count_total := count_total c + 1\<rparr> in
            (case dest_of IN_DIR OUT_DIR src of
               Inl e \<Rightarrow> (Inl e, w)
             | Inr dst \<Rightarrow>
                 (case (if SKIP_EXISTING then exists_call w dst else Inr False) of
                    Inl e \<Rightarrow> (Inl e, w)
                  | Inr True \<Rightarrow> (Inr (c1\<lparr>count_skipped := count_skipped c1 + 1\<rparr>), w)
                  | Inr False \<Rightarrow>
                      (case convert_one lib src dst w of
                         (Inr u, w') \<Rightarrow> (Inr (c1\<lparr>count_done := count_done c1 + 1\<rparr>), w')
                       | (Inl e, w') \<Rightarrow>
                           (case print (''[FAIL] '' @ str_path src @ '' -> '' @ str_path dst
                                        @ '' | '' @ str_exn e) w' of
                              (Inl e', w'') \<Rightarrow> (Inl e', w'')
                            | (Inr u, w'') \<Rightarrow>
                                (Inr (c1\<lparr>count_failed := count_failed c1 + 1\<rparr>), w''))))))"

fun loop ::
  "'img pillow \<Rightarrow> path list \<Rightarrow> tally \<Rightarrow> 'img world \<Rightarrow> (exn + tally) \<times> 'img world" where
  "loop lib [] c w = (Inr c, w)"
| "loop lib (src # rest) c w =
     (case loop_body lib src c w of
        (Inl e, w') \<Rightarrow> (Inl e, w')
      | (Inr c', w') \<Rightarrow> loop lib rest c' w')"

text \<open>
  \<open>Path.resolve()\<close> of a relative path without \<open>..\<close>, printed: the working directory
  followed by the parts.
\<close>

definition str_resolved :: "'img world \<Rightarrow> path \<Rightarrow> string" where
  "str_resolved w p = (if cwd w @ p = [] then ''/'' else concat (map ((@) ''/'') (cwd w @ p)))"

text \<open>The seven lines of the report, printed one after the other.\<close>

definition report_lines :: "tally \<Rightarrow> 'img world \<Rightarrow> string list" where
  "report_lines c w =
     [''=== TIFF -> PNG Done ==='',
      ''Input dir : '' @ str_resolved w IN_DIR,
      ''Output dir: '' @ str_resolved w OUT_DIR,
      ''Total TIFF: '' @ str_int (count_total c),
      ''Converted : '' @ str_int (count_done c),
      ''Skipped   : '' @ str_int (count_skipped c),
      ''Failed    : '' @ str_int (count_failed c)]"

definition report :: "tally \<Rightarrow> 'img world \<Rightarrow> (exn + unit) \<times> 'img world" where
  "report c w = prints (report_lines c w) w"

text \<open>
  How \<open>main\<close> ends: it returns (the outcome carries the final values of its four local
  counters, which the script itself only prints), it raises \<open>SystemExit\<close> with a
  message, or an exception leaves it. The message of \<open>SystemExit\<close> goes to standard
  error, which replaces what it cannot encode.

  \<open>rglob\<close> is a generator, and the loop changes the tree while it draws from it. The
  loop writes only below \<open>OUT_DIR\<close>, which is not below \<open>IN_DIR\<close>, so the entries drawn are
  those of the tree in which \<open>main\<close> starts (\<open>loop_preserves\<close> and \<open>preserves_rglob\<close> below),
  and the model takes the walk once, before the loop.
\<close>

datatype outcome = Returned tally | SystemExit string | Uncaught exn

definition main :: "'img pillow \<Rightarrow> 'img world \<Rightarrow> outcome \<times> 'img world" where
  "main lib w =
     (case exists_call w IN_DIR of
        Inl e \<Rightarrow> (Uncaught e, w)
      | Inr False \<Rightarrow>
          (SystemExit (''[ERROR] Input dir not found: '' @ str_resolved w IN_DIR), w)
      | Inr True \<Rightarrow>
          (case loop lib (rglob (fs w) IN_DIR)
                  \<lparr>count_total = 0, count_done = 0, count_skipped = 0, count_failed = 0\<rparr> w of
             (Inl e, w') \<Rightarrow> (Uncaught e, w')
           | (Inr c, w') \<Rightarrow>
               (case report c w' of
                  (Inl e, w'') \<Rightarrow> (Uncaught e, w'')
                | (Inr u, w'') \<Rightarrow> (Returned c, w''))))"

text \<open>
  The exit status of the process that runs \<open>main()\<close>: 0 when \<open>main\<close> returns, 1 when
  \<open>SystemExit\<close> carries a message or an exception is not caught.
\<close>

fun exit_status :: "outcome \<Rightarrow> int" where
  "exit_status (Returned c) = 0"
| "exit_status (SystemExit m) = 1"
| "exit_status (Uncaught e) = 1"

subsection \<open>Auxiliary notions for the proofs\<close>

text \<open>Two paths diverge when they differ at some position that both have.\<close>

fun diverge :: "path \<Rightarrow> path \<Rightarrow> bool" where
  "diverge (x # xs) (y # ys) = (if x = y then diverge xs ys else True)"
| "diverge xs ys = False"

text \<open>
  What one call of \<open>convert_one\<close> for the destination \<open>dst\<close> can do to the tree: nothing,
  the creation of the parent chain, or that followed by a write at \<open>dst\<close>.
\<close>

definition fs_step :: "path \<Rightarrow> node \<Rightarrow> node \<Rightarrow> bool" where
  "fs_step dst t t' \<longleftrightarrow>
     t' = t \<or> (\<exists>t1. mkdir_parents t (parent dst) = Inr t1 \<and> (t' = t1 \<or> (\<exists>b. write_file t1 dst b = Inr t')))"

text \<open>
  The entries that the loop of \<open>main\<close> does not pass over (lines 42 to 45): regular
  files whose suffix, lowered, is \<open>.tif\<close> or \<open>.tiff\<close>.
\<close>

definition candidate :: "node \<Rightarrow> path \<Rightarrow> bool" where
  "candidate t src \<longleftrightarrow> is_file t src \<and> lower (suffix src) \<in> {''.tif'', ''.tiff''}"

text \<open>
  A tree is well formed when no directory lists a name twice. \<open>tiff_files\<close> is the
  number of regular files anywhere below a node whose name has the suffix \<open>.tif\<close> or
  \<open>.tiff\<close>, in any case: the count that the specification gives for the total.
\<close>

fun wf_node :: "node \<Rightarrow> bool"
  and wf_entries :: "(string \<times> node) list \<Rightarrow> bool" where
  "wf_node (File b) = True"
| "wf_node (Dir es) = (distinct (map fst es) \<and> wf_entries es)"
| "wf_entries [] = True"
| "wf_entries (e # es) = (wf_node (snd e) \<and> wf_entries es)"

fun tiff_files :: "node \<Rightarrow> nat"
  and tiff_files_entries :: "(string \<times> node) list \<Rightarrow> nat" where
  "tiff_files (File b) = 0"
| "tiff_files (Dir es) = tiff_files_entries es"
| "tiff_files_entries [] = 0"
| "tiff_files_entries ((n, File b) # es) =
     (if lower (suffix [n]) \<in> {''.tif'', ''.tiff''} then 1 else 0) + tiff_files_entries es"
| "tiff_files_entries ((n, Dir ds) # es) = tiff_files (Dir ds) + tiff_files_entries es"

text \<open>
  A later tree preserves an earlier one when everything below the input root is as it
  was, every regular file that existed still exists with its content, and every path
  that existed still exists.
\<close>

definition preserves :: "node \<Rightarrow> node \<Rightarrow> bool" where
  "preserves t t' \<longleftrightarrow>
     (\<forall>q. stat t' (IN_DIR @ q) = stat t (IN_DIR @ q)) \<and>
     (\<forall>q b. stat t q = Inr (File b) \<longrightarrow> stat t' q = Inr (File b)) \<and>
     (\<forall>q. path_exists t q \<longrightarrow> path_exists t' q)"

subsection \<open>A concrete library and a concrete tree\<close>

text \<open>
  An image library for the examples: the content of a file is the name of its colour
  mode, \<open>corrupt\<close> cannot be decoded, and an image of mode \<open>L\<close> does not support \<open>seek\<close>.
  The tree has the input root with four candidates and, as a parameter, the other
  entries of \<open>public\<close>. In the worlds built on it the operating system refuses no path
  and standard output encodes every character.
\<close>

definition example_lib :: "string pillow" where
  "example_lib =
     \<lparr>pil_decode = (\<lambda>p b. if b = ''corrupt''
                            then Inl (ImageError (''cannot identify image file '' @ str_path p))
                            else Inr b),
      pil_seek = (\<lambda>im n. if im = ''L'' then Inl (ImageError ''seek is not supported'') else Inr im),
      pil_mode = (\<lambda>im. im),
      pil_convert = (\<lambda>im m. Inr m),
      pil_encode_png = (\<lambda>im. Encoded (''PNG '' @ im))\<rparr>"

definition example_patterns :: node where
  "example_patterns =
     Dir [(''a.tif'', File ''L''),
          (''sub'', Dir [(''b.TIFF'', File ''RGBA''),
                         (''c.txt'', File ''notes''),
                         (''d.tif'', File ''corrupt'')]),
          (''a.tiff'', File ''P''),
          (''e.tif'', Dir [])]"

definition example_tree :: "(string \<times> node) list \<Rightarrow> node" where
  "example_tree out = Dir [(''public'', Dir ((''patterns'', example_patterns) # out))]"

definition example_fs :: node where
  "example_fs = example_tree []"

definition example_world :: "string world" where
  "example_world = \<lparr>fs = example_fs, cwd = [''home'', ''u''], stdout = [], calls = [],
      os_error = (\<lambda>p. None), encodable = (\<lambda>c. True)\<rparr>"

text \<open>The same world with a regular file where the output root should be.\<close>

definition blocked_world :: "string world" where
  "blocked_world =
     \<lparr>fs = example_tree [(''patterns_png'', File ''in the way'')],
      cwd = [''home'', ''u''], stdout = [], calls = [],
      os_error = (\<lambda>p. None), encodable = (\<lambda>c. True)\<rparr>"

text \<open>
  The example with a destination that exists before the run, and a tree in which two
  candidates have the same destination.
\<close>

definition sentinel_world :: "string world" where
  "sentinel_world =
     \<lparr>fs = example_tree [(''patterns_png'', Dir [(''a.png'', File ''sentinel'')])],
      cwd = [''home'', ''u''], stdout = [], calls = [],
      os_error = (\<lambda>p. None), encodable = (\<lambda>c. True)\<rparr>"

definition collision_world :: "string world" where
  "collision_world =
     \<lparr>fs = Dir [(''public'',
                 Dir [(''patterns'', Dir [(''a.tif'', File ''RGB''), (''a.tiff'', File ''P'')])])],
      cwd = [''home'', ''u''], stdout = [], calls = [],
      os_error = (\<lambda>p. None), encodable = (\<lambda>c. True)\<rparr>"

text \<open>A world without the input root, and one where the input root is a regular file.\<close>

definition missing_world :: "string world" where
  "missing_world =
     \<lparr>fs = Dir [(''public'', Dir [])], cwd = [''home'', ''u''], stdout = [], calls = [],
      os_error = (\<lambda>p. None), encodable = (\<lambda>c. True)\<rparr>"

definition file_root_world :: "string world" where
  "file_root_world =
     \<lparr>fs = Dir [(''public'', Dir [(''patterns'', File ''not a directory'')])],
      cwd = [''home'', ''u''], stdout = [], calls = [],
      os_error = (\<lambda>p. None), encodable = (\<lambda>c. True)\<rparr>"



section \<open>Properties\<close>

subsection \<open>The file system operations\<close>

lemma stat_append:
  "stat t (p @ q) = (case stat t p of Inl e \<Rightarrow> Inl e | Inr n \<Rightarrow> stat n q)"
proof (induction t p rule: stat.induct)
  case (1 n)
  then show ?case by simp
next
  case (2 b x xs)
  then show ?case by simp
next
  case (3 es x xs)
  then show ?case by (simp split: option.splits)
qed

lemma stat_File_Cons: "stat (File b) p = Inr n \<longleftrightarrow> p = [] \<and> n = File b"
  by (cases p) auto

lemma map_of_update_same: "map_of (AList.update k v al) k = Some v"
  by (simp add: update_conv')

lemma map_of_update_other: "k' \<noteq> k \<Longrightarrow> map_of (AList.update k v al) k' = map_of al k'"
  by (simp add: update_conv')

lemma mkdir_parents_keeps:
  "mkdir_parents t p = Inr t' \<Longrightarrow> stat t q = Inr n \<Longrightarrow>
     \<exists>n'. stat t' q = Inr n' \<and> (\<forall>b. n = File b \<longrightarrow> n' = File b) \<and> (\<forall>es. n = Dir es \<longrightarrow> (\<exists>es'. n' = Dir es'))"
proof (induction t p arbitrary: t' q n rule: mkdir_parents.induct)
  case (1 es)
  then show ?case by (cases n) auto
next
  case (2 b)
  then show ?case by simp
next
  case (3 b x xs)
  then show ?case by simp
next
  case (4 es x xs)
  let ?c0 = "case map_of es x of None \<Rightarrow> Dir [] | Some c \<Rightarrow> c"
  from "4.prems"(1) obtain c' where c': "mkdir_parents ?c0 xs = Inr c'"
    and t': "t' = Dir (AList.update x c' es)"
    by (auto split: sum.splits)
  show ?case
  proof (cases q)
    case Nil
    with "4.prems"(2) t' show ?thesis by auto
  next
    case (Cons y ys)
    show ?thesis
    proof (cases "y = x")
      case True
      with Cons "4.prems"(2) obtain c where c: "map_of es x = Some c" and s: "stat c ys = Inr n"
        by (auto split: option.splits)
      from c have "?c0 = c" by simp
      with "4.IH"[OF c' ] s have "\<exists>n'. stat c' ys = Inr n' \<and> (\<forall>b. n = File b \<longrightarrow> n' = File b) \<and> (\<forall>es. n = Dir es \<longrightarrow> (\<exists>es'. n' = Dir es'))"
        by simp
      with True Cons t' show ?thesis by (simp add: map_of_update_same)
    next
      case False
      with Cons "4.prems"(2) t' show ?thesis
        by (cases n) (auto simp: map_of_update_other split: option.splits)
    qed
  qed
qed

lemma write_file_keeps:
  "write_file t d x = Inr t' \<Longrightarrow> stat t q = Inr n \<Longrightarrow>
     \<exists>n'. stat t' q = Inr n' \<and> (\<forall>b. n = File b \<and> q \<noteq> d \<longrightarrow> n' = File b)
        \<and> (\<forall>b. n = File b \<longrightarrow> (\<exists>b'. n' = File b')) \<and> (\<forall>es. n = Dir es \<longrightarrow> (\<exists>es'. n' = Dir es'))"
proof (induction t d x arbitrary: t' q n rule: write_file.induct)
  case (1 n b)
  then show ?case by simp
next
  case (2 c x xs b)
  then show ?case by simp
next
  case (3 es x b)
  from "3.prems"(1) have t': "t' = Dir (AList.update x (File b) es)"
    and nd: "\<And>ds. map_of es x \<noteq> Some (Dir ds)"
    by (auto split: option.splits node.splits)
  show ?case
  proof (cases q)
    case Nil
    with "3.prems"(2) t' show ?thesis by auto
  next
    case (Cons y ys)
    show ?thesis
    proof (cases "y = x")
      case True
      with Cons "3.prems"(2) obtain c where c: "map_of es x = Some c" and s: "stat c ys = Inr n"
        by (auto split: option.splits)
      from c nd obtain b0 where "c = File b0" by (cases c) auto
      with s have "ys = []" "n = File b0" by (auto simp: stat_File_Cons)
      with True Cons t' show ?thesis by (simp add: map_of_update_same)
    next
      case False
      with Cons "3.prems"(2) t' show ?thesis
        by (cases n) (auto simp: map_of_update_other split: option.splits)
    qed
  qed
next
  case (4 es x y ys b)
  from "4.prems"(1) obtain c c' where c: "map_of es x = Some c"
    and c': "write_file c (y # ys) b = Inr c'"
    and t': "t' = Dir (AList.update x c' es)"
    by (auto split: option.splits sum.splits)
  show ?case
  proof (cases q)
    case Nil
    with "4.prems"(2) t' show ?thesis by auto
  next
    case (Cons z zs)
    show ?thesis
    proof (cases "z = x")
      case True
      with Cons "4.prems"(2) c have s: "stat c zs = Inr n"
        by (auto split: option.splits)
      from "4.IH"[OF c c' s] True Cons t' show ?thesis
        by (auto simp add: map_of_update_same)
    next
      case False
      with Cons "4.prems"(2) t' show ?thesis
        by (cases n) (auto simp: map_of_update_other split: option.splits)
    qed
  qed
qed

lemma write_file_stat:
  "write_file t d x = Inr t' \<Longrightarrow> stat t' d = Inr (File x)"
proof (induction t d x arbitrary: t' rule: write_file.induct)
  case (1 n b)
  then show ?case by simp
next
  case (2 c x xs b)
  then show ?case by simp
next
  case (3 es x b)
  then show ?case by (auto simp: map_of_update_same split: option.splits node.splits)
next
  case (4 es x y ys b)
  then show ?case by (auto simp: map_of_update_same split: option.splits sum.splits)
qed

lemma mkdir_parents_is_dir:
  "mkdir_parents t p = Inr t' \<Longrightarrow> \<exists>es. stat t' p = Inr (Dir es)"
proof (induction t p arbitrary: t' rule: mkdir_parents.induct)
  case (1 es)
  then show ?case by auto
next
  case (2 b)
  then show ?case by simp
next
  case (3 b x xs)
  then show ?case by simp
next
  case (4 es x xs)
  then show ?case by (auto simp: map_of_update_same split: sum.splits)
qed

lemma diverge_Cons: "diverge (x # xs) q \<longleftrightarrow> (\<exists>y ys. q = y # ys \<and> (x \<noteq> y \<or> diverge xs ys))"
  by (cases q) auto

lemma diverge_nonempty: "diverge p q \<Longrightarrow> q \<noteq> []"
  by (cases p; cases q) auto

lemma stat_empty_dir: "q \<noteq> [] \<Longrightarrow> stat (Dir []) q = Inl ENOENT"
  by (cases q) auto

lemma mkdir_parents_frame:
  "mkdir_parents t p = Inr t' \<Longrightarrow> diverge p q \<Longrightarrow> stat t' q = stat t q"
proof (induction t p arbitrary: t' q rule: mkdir_parents.induct)
  case (1 es)
  then show ?case by simp
next
  case (2 b)
  then show ?case by simp
next
  case (3 b x xs)
  then show ?case by simp
next
  case (4 es x xs)
  let ?c0 = "case map_of es x of None \<Rightarrow> Dir [] | Some c \<Rightarrow> c"
  from "4.prems"(1) obtain c' where c': "mkdir_parents ?c0 xs = Inr c'"
    and t': "t' = Dir (AList.update x c' es)"
    by (auto split: sum.splits)
  from "4.prems"(2) obtain y ys where q: "q = y # ys" and d: "x \<noteq> y \<or> diverge xs ys"
    by (auto simp: diverge_Cons)
  show ?case
  proof (cases "y = x")
    case True
    with d have dv: "diverge xs ys" by simp
    from "4.IH"[OF c' dv] have "stat c' ys = stat ?c0 ys" .
    with True q t' dv show ?thesis
      by (auto simp: map_of_update_same stat_empty_dir diverge_nonempty split: option.splits)
  next
    case False
    with q t' show ?thesis by (simp add: map_of_update_other)
  qed
qed

lemma write_file_frame:
  "write_file t p b = Inr t' \<Longrightarrow> diverge p q \<Longrightarrow> stat t' q = stat t q"
proof (induction t p b arbitrary: t' q rule: write_file.induct)
  case (1 n b)
  then show ?case by simp
next
  case (2 c x xs b)
  then show ?case by simp
next
  case (3 es x b)
  then show ?case
    by (auto simp: diverge_Cons map_of_update_other split: option.splits node.splits)
next
  case (4 es x y ys b)
  from "4.prems"(1) obtain c c' where c: "map_of es x = Some c"
    and c': "write_file c (y # ys) b = Inr c'"
    and t': "t' = Dir (AList.update x c' es)"
    by (auto split: option.splits sum.splits)
  from "4.prems"(2) obtain z zs where q: "q = z # zs" and d: "x \<noteq> z \<or> diverge (y # ys) zs"
    by (auto simp: diverge_Cons)
  show ?case
  proof (cases "z = x")
    case True
    with d have dv: "diverge (y # ys) zs" by simp
    from "4.IH"[OF c c' dv] True q t' c show ?thesis
      by (simp add: map_of_update_same)
  next
    case False
    with q t' show ?thesis by (simp add: map_of_update_other)
  qed
qed

lemma diverge_append: "diverge p q \<Longrightarrow> diverge (p @ r) q"
  by (induction p q rule: diverge.induct) (auto split: if_splits)

lemma diverge_butlast: "diverge (butlast p) q \<Longrightarrow> diverge p q"
  by (metis append_butlast_last_id butlast.simps(1) diverge_append)

lemma image_save_fs:
  "image_save lib t im dst = (r, t') \<Longrightarrow> t' = t \<or> (\<exists>b. write_file t dst b = Inr t')"
  by (auto simp: image_save_def split: save_result.splits option.splits sum.splits)

lemma image_save_ok:
  "image_save lib t im dst = (Inr u, t') \<Longrightarrow> \<exists>b. write_file t dst b = Inr t'"
  by (auto simp: image_save_def split: save_result.splits option.splits sum.splits)

lemma convert_one_fs:
  "convert_one lib src dst w = (r, w') \<Longrightarrow> fs_step dst (fs w) (fs w')"
  unfolding convert_one_def fs_step_def call_def Let_def
  by (auto split: sum.splits prod.splits if_splits dest: image_save_fs)

lemma convert_one_ok_fs:
  "convert_one lib src dst w = (Inr u, w') \<Longrightarrow>
     \<exists>t1 b. mkdir_parents (fs w) (parent dst) = Inr t1 \<and> write_file t1 dst b = Inr (fs w')"
  unfolding convert_one_def call_def Let_def
  by (auto split: sum.splits prod.splits if_splits dest: image_save_ok)

lemma convert_one_stdout:
  "convert_one lib src dst w = (r, w') \<Longrightarrow> stdout w' = stdout w \<and> cwd w' = cwd w"
  unfolding convert_one_def call_def Let_def
  by (auto split: sum.splits prod.splits if_splits)

lemma fs_step_keeps:
  assumes "fs_step dst t t'" and "stat t q = Inr n"
  shows "\<exists>n'. stat t' q = Inr n' \<and> (\<forall>b. n = File b \<and> q \<noteq> dst \<longrightarrow> n' = File b)"
proof -
  from assms(1) consider "t' = t"
    | t1 where "mkdir_parents t (parent dst) = Inr t1" "t' = t1"
    | t1 b where "mkdir_parents t (parent dst) = Inr t1" "write_file t1 dst b = Inr t'"
    unfolding fs_step_def by blast
  then show ?thesis
  proof cases
    case 1
    with assms(2) show ?thesis by simp
  next
    case 2
    from mkdir_parents_keeps[OF 2(1) assms(2)] 2(2) show ?thesis by auto
  next
    case 3
    from mkdir_parents_keeps[OF 3(1) assms(2)] obtain n1 where
      n1: "stat t1 q = Inr n1" "\<forall>b. n = File b \<longrightarrow> n1 = File b" by auto
    from write_file_keeps[OF 3(2) n1(1)] n1(2) show ?thesis by auto
  qed
qed

lemma fs_step_frame:
  assumes "fs_step dst t t'" and "diverge (parent dst) q"
  shows "stat t' q = stat t q"
proof -
  from assms(2) have d: "diverge dst q" by (simp add: parent_def diverge_butlast)
  from assms(1) consider "t' = t"
    | t1 where "mkdir_parents t (parent dst) = Inr t1" "t' = t1"
    | t1 b where "mkdir_parents t (parent dst) = Inr t1" "write_file t1 dst b = Inr t'"
    unfolding fs_step_def by blast
  then show ?thesis
  proof cases
    case 1
    then show ?thesis by simp
  next
    case 2
    with mkdir_parents_frame[OF 2(1) assms(2)] show ?thesis by simp
  next
    case 3
    with mkdir_parents_frame[OF 3(1) assms(2)] write_file_frame[OF 3(2) d] show ?thesis by simp
  qed
qed

subsection \<open>Paths and the walk\<close>

lemma suffix_nonempty: "suffix p \<noteq> [] \<Longrightarrow> name p \<noteq> [] \<and> p \<noteq> []"
  by (auto simp: suffix_def name_def rfind_def Let_def split: if_splits)

lemma name_append: "rel \<noteq> [] \<Longrightarrow> name (R @ rel) = name rel"
  by (simp add: name_def)

lemma suffix_append: "rel \<noteq> [] \<Longrightarrow> suffix (R @ rel) = suffix rel"
  by (simp add: suffix_def name_append)

lemma suffix_last: "rel \<noteq> [] \<Longrightarrow> suffix rel = suffix [last rel]"
  by (simp add: suffix_def name_def)

lemma name_split:
  "suffix p \<noteq> [] \<Longrightarrow> name p = take (length (name p) - length (suffix p)) (name p) @ suffix p"
  by (auto simp: suffix_def Let_def split: if_splits)

lemma tiff_suffix_nonempty: "lower s \<in> {''.tif'', ''.tiff''} \<Longrightarrow> s \<noteq> []"
  by (auto simp: lower_def)

lemma with_suffix_png:
  "suffix p \<noteq> [] \<Longrightarrow>
     with_suffix p ''.png'' =
       Inr (butlast p @ [take (length (name p) - length (suffix p)) (name p) @ ''.png''])"
  using suffix_nonempty[of p] by (simp add: with_suffix_def Let_def)

lemma relative_to_under: "relative_to (R @ rel) R = Inr rel"
  by (simp add: relative_to_def)

lemma dest_of_under:
  assumes "rel \<noteq> []" and "suffix (R @ rel) \<noteq> []"
  shows "dest_of R Out (R @ rel) =
           Inr (Out @ butlast rel @ [take (length (last rel) - length (suffix rel)) (last rel) @ ''.png''])"
proof -
  from assms have s: "suffix rel \<noteq> []" by (simp add: suffix_append)
  from assms(1) have "name rel = last rel" by (simp add: name_def)
  with s show ?thesis
    by (simp add: dest_of_def relative_to_under with_suffix_png joinpath_def)
qed

lemma walk_nonempty:
  "[] \<notin> set (walk n)" "[] \<notin> set (walk_entries es)"
  by (induction n and es rule: walk_walk_entries.induct) auto

lemma rglob_under:
  "src \<in> set (rglob t root) \<Longrightarrow> \<exists>rel. src = root @ rel \<and> rel \<noteq> []"
  using walk_nonempty
  by (auto simp: rglob_def joinpath_def split: sum.splits node.splits)

subsection \<open>Printing and the queries of the file system\<close>

lemma call_simps [simp]:
  "fs (call ev w) = fs w" "cwd (call ev w) = cwd w" "calls (call ev w) = calls w @ [ev]"
  "stdout (call ev w) = stdout w" "os_error (call ev w) = os_error w"
  "encodable (call ev w) = encodable w"
  by (simp_all add: call_def)

lemma print_ok:
  "print l w = (Inr u, w') \<Longrightarrow> w' = w\<lparr>stdout := stdout w @ [l]\<rparr> \<and> list_all (encodable w) l"
  by (auto simp: print_def split: if_splits)

lemma print_fails: "print l w = (Inl e, w') \<Longrightarrow> w' = w \<and> \<not> list_all (encodable w) l"
  by (auto simp: print_def split: if_splits)

lemma print_encodable:
  "list_all (encodable w) l \<Longrightarrow> print l w = (Inr (), w\<lparr>stdout := stdout w @ [l]\<rparr>)"
  by (simp add: print_def)

lemma print_world [simp]:
  "fs (snd (print l w)) = fs w" "cwd (snd (print l w)) = cwd w"
  "calls (snd (print l w)) = calls w" "os_error (snd (print l w)) = os_error w"
  "encodable (snd (print l w)) = encodable w"
  by (simp_all add: print_def)

lemma prints_world:
  "fs (snd (prints ls w)) = fs w \<and> cwd (snd (prints ls w)) = cwd w \<and>
   calls (snd (prints ls w)) = calls w \<and> os_error (snd (prints ls w)) = os_error w \<and>
   encodable (snd (prints ls w)) = encodable w"
proof (induction ls arbitrary: w)
  case Nil
  show ?case by simp
next
  case (Cons l ls)
  obtain r w1 where p: "print l w = (r, w1)" by force
  have w1: "fs w1 = fs w \<and> cwd w1 = cwd w \<and> calls w1 = calls w \<and>
            os_error w1 = os_error w \<and> encodable w1 = encodable w"
    using print_world[of l w] p by simp
  show ?case
  proof (cases r)
    case (Inl e)
    with p w1 show ?thesis by simp
  next
    case (Inr u)
    with p w1 Cons[of w1] show ?thesis by simp
  qed
qed

lemma prints_ok:
  "prints ls w = (Inr u, w') \<Longrightarrow>
     w' = w\<lparr>stdout := stdout w @ ls\<rparr> \<and> list_all (list_all (encodable w)) ls"
proof (induction ls arbitrary: w)
  case Nil
  then show ?case by simp
next
  case (Cons l ls)
  from Cons.prems obtain u1 w1 where p: "print l w = (Inr u1, w1)"
    and r: "prints ls w1 = (Inr u, w')"
    by (auto split: prod.splits sum.splits)
  from print_ok[OF p] have w1: "w1 = w\<lparr>stdout := stdout w @ [l]\<rparr>" and e: "list_all (encodable w) l"
    by simp_all
  from Cons.IH[OF r] w1 e show ?case by simp
qed

lemma prints_encodable:
  "list_all (list_all (encodable w)) ls \<Longrightarrow> prints ls w = (Inr (), w\<lparr>stdout := stdout w @ ls\<rparr>)"
proof (induction ls arbitrary: w)
  case Nil
  show ?case by simp
next
  case (Cons l ls)
  from Cons.prems have e: "list_all (encodable w) l" and r: "list_all (list_all (encodable w)) ls"
    by simp_all
  let ?w1 = "w\<lparr>stdout := stdout w @ [l]\<rparr>"
  from r have "list_all (list_all (encodable ?w1)) ls" by simp
  from Cons.IH[OF this] print_encodable[OF e] show ?case by simp
qed

lemma stat_call_present: "stat (fs w) p = Inr n \<Longrightarrow> stat_call w p = Inr (Some n)"
  by (simp add: stat_call_def)

lemma is_file_call_Inr: "is_file_call w p = Inr b \<Longrightarrow> b = is_file (fs w) p"
  by (auto simp: is_file_call_def stat_call_def is_file_def
           split: sum.splits option.splits node.splits if_splits)

lemma exists_call_Inr: "exists_call w p = Inr b \<Longrightarrow> b = path_exists (fs w) p"
  by (auto simp: exists_call_def stat_call_def path_exists_def
           split: sum.splits option.splits if_splits)

lemma is_file_call_present: "path_exists (fs w) p \<Longrightarrow> is_file_call w p = Inr (is_file (fs w) p)"
  by (auto simp: is_file_call_def stat_call_def is_file_def path_exists_def
           split: sum.splits option.splits node.splits)

lemma exists_call_present: "path_exists (fs w) p \<Longrightarrow> exists_call w p = Inr True"
  by (auto simp: exists_call_def stat_call_def path_exists_def split: sum.splits)

lemma is_file_call_clean: "os_error w p = None \<Longrightarrow> is_file_call w p = Inr (is_file (fs w) p)"
  by (auto simp: is_file_call_def stat_call_def is_file_def split: sum.splits node.splits)

lemma exists_call_clean: "os_error w p = None \<Longrightarrow> exists_call w p = Inr (path_exists (fs w) p)"
  by (auto simp: exists_call_def stat_call_def path_exists_def split: sum.splits)

lemma is_file_path_exists: "is_file t p \<Longrightarrow> path_exists t p"
  by (auto simp: is_file_def path_exists_def split: sum.splits)

lemma convert_one_env:
  "convert_one lib src dst w = (r, w') \<Longrightarrow> os_error w' = os_error w \<and> encodable w' = encodable w"
  unfolding convert_one_def call_def Let_def
  by (auto split: sum.splits prod.splits if_splits)

subsection \<open>The loop\<close>

lemma loop_body_cases:
  assumes "loop_body lib (IN_DIR @ rel) c w = (Inr c', w')" and "rel \<noteq> []"
  obtains
    (ignored) "\<not> (is_file (fs w) (IN_DIR @ rel) \<and> lower (suffix (IN_DIR @ rel)) \<in> {''.tif'', ''.tiff''})"
       "c' = c" "w' = w"
  | (skipped) dst where
       "is_file (fs w) (IN_DIR @ rel)" "lower (suffix (IN_DIR @ rel)) \<in> {''.tif'', ''.tiff''}"
       "dest_of IN_DIR OUT_DIR (IN_DIR @ rel) = Inr dst" "path_exists (fs w) dst"
       "c' = c\<lparr>count_total := count_total c + 1, count_skipped := count_skipped c + 1\<rparr>" "w' = w"
  | (converted) dst where
       "is_file (fs w) (IN_DIR @ rel)" "lower (suffix (IN_DIR @ rel)) \<in> {''.tif'', ''.tiff''}"
       "dest_of IN_DIR OUT_DIR (IN_DIR @ rel) = Inr dst" "\<not> path_exists (fs w) dst"
       "convert_one lib (IN_DIR @ rel) dst w = (Inr (), w')"
       "c' = c\<lparr>count_total := count_total c + 1, count_done := count_done c + 1\<rparr>"
  | (failed) dst e w1 where
       "is_file (fs w) (IN_DIR @ rel)" "lower (suffix (IN_DIR @ rel)) \<in> {''.tif'', ''.tiff''}"
       "dest_of IN_DIR OUT_DIR (IN_DIR @ rel) = Inr dst" "\<not> path_exists (fs w) dst"
       "convert_one lib (IN_DIR @ rel) dst w = (Inl e, w1)"
       "c' = c\<lparr>count_total := count_total c + 1, count_failed := count_failed c + 1\<rparr>"
       "w' = w1\<lparr>stdout := stdout w1 @
                 [''[FAIL] '' @ str_path (IN_DIR @ rel) @ '' -> '' @ str_path dst @ '' | '' @ str_exn e]\<rparr>"
proof -
  let ?src = "IN_DIR @ rel"
  from assms(1) obtain f where f: "is_file_call w ?src = Inr f"
    by (auto simp: loop_body_def split: sum.splits)
  from is_file_call_Inr[OF f] have ff: "f = is_file (fs w) ?src" .
  show ?thesis
  proof (cases "is_file (fs w) ?src \<and> lower (suffix ?src) \<in> {''.tif'', ''.tiff''}")
    case False
    with assms(1) f ff have "c' = c" "w' = w"
      by (auto simp: loop_body_def split: if_splits)
    with False ignored show ?thesis by blast
  next
    case True
    then have nf: "\<not> (\<not> f)" and sx: "\<not> (lower (suffix ?src) \<notin> {''.tif'', ''.tiff''})"
      using ff by simp_all
    from True have "suffix ?src \<noteq> []" using tiff_suffix_nonempty by blast
    from dest_of_under[OF assms(2) this] obtain dst where
      dst: "dest_of IN_DIR OUT_DIR ?src = Inr dst" by blast
    note body = assms(1)[unfolded loop_body_def f sum.case if_not_P[OF nf] if_not_P[OF sx] Let_def
                          dst SKIP_EXISTING_def if_True]
    from body obtain x where x: "exists_call w dst = Inr x"
      by (auto split: sum.splits)
    from exists_call_Inr[OF x] have xx: "x = path_exists (fs w) dst" .
    show ?thesis
    proof (cases "path_exists (fs w) dst")
      case ex: True
      with body x xx have
        "c' = c\<lparr>count_total := count_total c + 1, count_skipped := count_skipped c + 1\<rparr>" "w' = w"
        by auto
      with True dst ex skipped show ?thesis by blast
    next
      case nex: False
      obtain r1 w1 where c1: "convert_one lib ?src dst w = (r1, w1)" by force
      show ?thesis
      proof (cases r1)
        case (Inl e)
        let ?line = "''[FAIL] '' @ str_path ?src @ '' -> '' @ str_path dst @ '' | '' @ str_exn e"
        from body x xx nex c1 Inl obtain u where
          p: "print ?line w1 = (Inr u, w')"
          and c': "c' = c\<lparr>count_total := count_total c + 1, count_failed := count_failed c + 1\<rparr>"
          by (auto split: prod.splits sum.splits)
        from print_ok[OF p] have "w' = w1\<lparr>stdout := stdout w1 @ [?line]\<rparr>" by simp
        with True dst nex c1 Inl c' failed show ?thesis by blast
      next
        case (Inr u)
        with body x xx nex c1 have
          "c' = c\<lparr>count_total := count_total c + 1, count_done := count_done c + 1\<rparr>"
          "w' = w1"
          by auto
        with True dst nex c1 Inr converted show ?thesis by auto
      qed
    qed
  qed
qed

lemma loop_invariant:
  assumes "loop lib srcs c w = (Inr c', w')"
    and "I c w"
    and "\<And>src c w c' w'. src \<in> set srcs \<Longrightarrow> I c w \<Longrightarrow> loop_body lib src c w = (Inr c', w') \<Longrightarrow> I c' w'"
  shows "I c' w'"
  using assms
proof (induction srcs arbitrary: c w)
  case Nil
  then show ?case by simp
next
  case (Cons src rest)
  from Cons.prems(1) obtain c1 w1 where
    b: "loop_body lib src c w = (Inr c1, w1)" and l: "loop lib rest c1 w1 = (Inr c', w')"
    by (auto split: prod.splits sum.splits)
  have i1: "I c1 w1" by (rule Cons.prems(3)[OF _ Cons.prems(2) b]) simp
  show ?case
  proof (rule Cons.IH[OF l i1])
    fix s d v d' v'
    assume "s \<in> set rest" "I d v" "loop_body lib s d v = (Inr d', v')"
    then show "I d' v'" using Cons.prems(3)[of s d v d' v'] by simp
  qed
qed

lemma loop_body_env:
  assumes "loop_body lib (IN_DIR @ rel) c w = (Inr c', w')" and "rel \<noteq> []"
  shows "os_error w' = os_error w \<and> encodable w' = encodable w \<and> cwd w' = cwd w"
  using assms
proof (cases rule: loop_body_cases)
  case ignored
  then show ?thesis by simp
next
  case (skipped dst)
  then show ?thesis by simp
next
  case (converted dst)
  from convert_one_env[OF converted(5)] convert_one_stdout[OF converted(5)] show ?thesis by simp
next
  case (failed dst e w1)
  from convert_one_env[OF failed(5)] convert_one_stdout[OF failed(5)] failed(7)
  show ?thesis by simp
qed

lemma loop_env:
  assumes "loop lib srcs c w = (Inr c', w')"
    and "\<forall>src \<in> set srcs. \<exists>rel. src = IN_DIR @ rel \<and> rel \<noteq> []"
  shows "os_error w' = os_error w \<and> encodable w' = encodable w \<and> cwd w' = cwd w"
proof (rule loop_invariant[where I = "\<lambda>c v. os_error v = os_error w \<and> encodable v = encodable w \<and> cwd v = cwd w", OF assms(1)])
  show "os_error w = os_error w \<and> encodable w = encodable w \<and> cwd w = cwd w" by simp
next
  fix src d v d' and v' :: "'a world"
  assume s: "src \<in> set srcs"
    and i: "os_error v = os_error w \<and> encodable v = encodable w \<and> cwd v = cwd w"
    and b: "loop_body lib src d v = (Inr d', v')"
  from assms(2) s obtain rel where rel: "src = IN_DIR @ rel" "rel \<noteq> []" by blast
  from loop_body_env[of lib rel d v d' v'] b rel i
  show "os_error v' = os_error w \<and> encodable v' = encodable w \<and> cwd v' = cwd w" by simp
qed

text \<open>
  Where the operating system refuses no path and standard output encodes every
  character, nothing can leave the loop.
\<close>

lemma loop_body_returns_clean:
  assumes "\<forall>p. os_error w p = None" and "\<forall>ch. encodable w ch" and "rel \<noteq> []"
  shows "\<exists>c' w'. loop_body lib (IN_DIR @ rel) c w = (Inr c', w')"
proof -
  let ?src = "IN_DIR @ rel"
  from assms(1) have f: "is_file_call w ?src = Inr (is_file (fs w) ?src)"
    by (simp add: is_file_call_clean)
  show ?thesis
  proof (cases "is_file (fs w) ?src \<and> lower (suffix ?src) \<in> {''.tif'', ''.tiff''}")
    case False
    then show ?thesis by (auto simp: loop_body_def f)
  next
    case True
    then have nf: "\<not> (\<not> is_file (fs w) ?src)"
      and sx: "\<not> (lower (suffix ?src) \<notin> {''.tif'', ''.tiff''})"
      by simp_all
    from True have "suffix ?src \<noteq> []" using tiff_suffix_nonempty by blast
    from dest_of_under[OF assms(3) this] obtain dst where
      dst: "dest_of IN_DIR OUT_DIR ?src = Inr dst" by blast
    from assms(1) have x: "exists_call w dst = Inr (path_exists (fs w) dst)"
      by (simp add: exists_call_clean)
    note body = loop_body_def[of lib ?src c w, unfolded f sum.case if_not_P[OF nf] if_not_P[OF sx]
                  Let_def dst SKIP_EXISTING_def if_True x]
    show ?thesis
    proof (cases "path_exists (fs w) dst")
      case True
      with body show ?thesis by simp
    next
      case False
      obtain r1 w1 where c1: "convert_one lib ?src dst w = (r1, w1)" by force
      show ?thesis
      proof (cases r1)
        case (Inl e)
        from convert_one_env[OF c1] assms(2) have "\<forall>ch. encodable w1 ch" by simp
        then have "list_all (encodable w1)
          (''[FAIL] '' @ str_path ?src @ '' -> '' @ str_path dst @ '' | '' @ str_exn e)"
          by (simp add: list_all_iff)
        from print_encodable[OF this] body False c1 Inl show ?thesis by simp
      next
        case (Inr u)
        with body False c1 show ?thesis by simp
      qed
    qed
  qed
qed

lemma loop_returns_clean:
  assumes "\<forall>src \<in> set srcs. \<exists>rel. src = IN_DIR @ rel \<and> rel \<noteq> []"
    and "\<forall>p. os_error w p = None" and "\<forall>ch. encodable w ch"
  shows "\<exists>c' w'. loop lib srcs c w = (Inr c', w')"
  using assms
proof (induction srcs arbitrary: c w)
  case Nil
  then show ?case by simp
next
  case (Cons src rest)
  from Cons.prems(1) obtain rel where rel: "src = IN_DIR @ rel" "rel \<noteq> []" by auto
  from loop_body_returns_clean[OF Cons.prems(2,3) rel(2), of lib c] obtain c1 w1 where
    b: "loop_body lib (IN_DIR @ rel) c w = (Inr c1, w1)" by blast
  from loop_body_env[OF b rel(2)] Cons.prems(2,3)
  have e1: "\<forall>p. os_error w1 p = None" "\<forall>ch. encodable w1 ch" by simp_all
  from Cons.prems(1) have r: "\<forall>src \<in> set rest. \<exists>rel. src = IN_DIR @ rel \<and> rel \<noteq> []" by simp
  from Cons.IH[OF r e1, of c1] b rel show ?case by simp
qed

lemma main_returns_clean:
  assumes "path_exists (fs w) IN_DIR"
    and "\<forall>p. os_error w p = None" and "\<forall>ch. encodable w ch"
  shows "\<exists>c w'. main lib w = (Returned c, w')"
proof -
  have u: "\<forall>src \<in> set (rglob (fs w) IN_DIR). \<exists>rel. src = IN_DIR @ rel \<and> rel \<noteq> []"
    using rglob_under by blast
  from loop_returns_clean[OF u assms(2,3)] obtain c' w1 where
    l: "loop lib (rglob (fs w) IN_DIR)
       \<lparr>count_total = 0, count_done = 0, count_skipped = 0, count_failed = 0\<rparr> w = (Inr c', w1)"
    by blast
  from loop_env[OF l u] assms(3) have "\<forall>ch. encodable w1 ch" by simp
  then have "list_all (list_all (encodable w1)) (report_lines c' w1)"
    by (simp add: list_all_iff)
  from prints_encodable[OF this] have "report c' w1 =
      (Inr (), w1\<lparr>stdout := stdout w1 @ report_lines c' w1\<rparr>)"
    by (simp add: report_def)
  with l exists_call_present[OF assms(1)] show ?thesis by (simp add: main_def)
qed

lemma loop_body_tally:
  assumes "loop_body lib (IN_DIR @ rel) c w = (Inr c', w')" and "rel \<noteq> []"
    and "count_done c + count_skipped c + count_failed c = count_total c"
    and "0 \<le> count_done c" "0 \<le> count_skipped c" "0 \<le> count_failed c"
  shows "count_done c' + count_skipped c' + count_failed c' = count_total c' \<and>
         0 \<le> count_done c' \<and> 0 \<le> count_skipped c' \<and> 0 \<le> count_failed c'"
  using assms(1,2)
proof (cases rule: loop_body_cases)
  case ignored
  with assms show ?thesis by simp
next
  case (skipped dst)
  with assms show ?thesis by auto
next
  case (converted dst)
  with assms show ?thesis by auto
next
  case (failed dst e w1)
  with assms show ?thesis by auto
qed

lemma main_loop:
  assumes "main lib w = (Returned c, w')"
  shows "\<exists>w1. loop lib (rglob (fs w) IN_DIR)
                \<lparr>count_total = 0, count_done = 0, count_skipped = 0, count_failed = 0\<rparr> w = (Inr c, w1)
              \<and> w' = w1\<lparr>stdout := stdout w1 @ report_lines c w1\<rparr>
              \<and> list_all (list_all (encodable w1)) (report_lines c w1)
              \<and> path_exists (fs w) IN_DIR"
proof -
  from assms obtain x where x: "exists_call w IN_DIR = Inr x"
    by (auto simp: main_def split: sum.splits)
  with assms have xt: "x" by (auto simp: main_def split: if_splits bool.splits)
  from exists_call_Inr[OF x] xt have ex: "path_exists (fs w) IN_DIR" by simp
  from assms x xt obtain w1 u where
    l: "loop lib (rglob (fs w) IN_DIR)
          \<lparr>count_total = 0, count_done = 0, count_skipped = 0, count_failed = 0\<rparr> w = (Inr c, w1)"
    and r: "report c w1 = (Inr u, w')"
    by (auto simp: main_def split: prod.splits sum.splits)
  from prints_ok[OF r[unfolded report_def]] l ex show ?thesis by blast
qed

lemma main_tally:
  assumes "main lib w = (Returned c, w')"
  shows "count_done c + count_skipped c + count_failed c = count_total c \<and>
         0 \<le> count_done c \<and> 0 \<le> count_skipped c \<and> 0 \<le> count_failed c"
proof -
  let ?I = "\<lambda>c (w::'a world). count_done c + count_skipped c + count_failed c = count_total c \<and>
         0 \<le> count_done c \<and> 0 \<le> count_skipped c \<and> 0 \<le> count_failed c"
  from main_loop[OF assms] obtain w1 where
    l: "loop lib (rglob (fs w) IN_DIR)
                \<lparr>count_total = 0, count_done = 0, count_skipped = 0, count_failed = 0\<rparr> w = (Inr c, w1)"
    by blast
  show ?thesis
  proof (rule loop_invariant[where I = ?I, OF l])
    show "?I \<lparr>count_total = 0, count_done = 0, count_skipped = 0, count_failed = 0\<rparr> w" by simp
  next
    fix src d v d' and v' :: "'a world"
    assume s: "src \<in> set (rglob (fs w) IN_DIR)" and i: "?I d v"
      and b: "loop_body lib src d v = (Inr d', v')"
    from rglob_under[OF s] obtain rel where rel: "src = IN_DIR @ rel" "rel \<noteq> []" by blast
    from loop_body_tally[of lib rel d v d' v'] b rel i show "?I d' v'" by simp
  qed
qed

section \<open>The claims\<close>

subsection \<open>Runs of the example\<close>

lemma example_run:
  "fst (main example_lib example_world) =
     Returned \<lparr>count_total = 4, count_done = 2, count_skipped = 1, count_failed = 1\<rparr>"
  by code_simp

lemma example_step_fst:
  "fst (loop_body example_lib [''public'', ''patterns'', ''a.tif'']
     \<lparr>count_total = 0, count_done = 0, count_skipped = 0, count_failed = 0\<rparr> example_world) =
   Inr \<lparr>count_total = 1, count_done = 1, count_skipped = 0, count_failed = 0\<rparr>"
  by code_simp

lemma example_step:
  "loop_body example_lib [''public'', ''patterns'', ''a.tif'']
     \<lparr>count_total = 0, count_done = 0, count_skipped = 0, count_failed = 0\<rparr> example_world =
   (Inr \<lparr>count_total = 1, count_done = 1, count_skipped = 0, count_failed = 0\<rparr>,
    snd (loop_body example_lib [''public'', ''patterns'', ''a.tif'']
     \<lparr>count_total = 0, count_done = 0, count_skipped = 0, count_failed = 0\<rparr> example_world))"
  using example_step_fst by (metis prod.collapse)

subsection \<open>C2: the tallies partition the candidates\<close>

text \<open>
  C2. Whenever \<open>main\<close> returns, the counters satisfy converted + skipped + failed = total
  and none of them is negative, and the last four lines of standard output are the
  report of exactly these four values; and one pass of the loop body over a candidate
  (a regular file with suffix \<open>.tif\<close> or \<open>.tiff\<close>, in any case) adds one to the total and
  one to exactly one of converted, skipped, failed.
\<close>

theorem tallies_partition_total:
  "(main lib w = (Returned c, w') \<longrightarrow>
      count_done c + count_skipped c + count_failed c = count_total c \<and>
      0 \<le> count_total c \<and> 0 \<le> count_done c \<and> 0 \<le> count_skipped c \<and> 0 \<le> count_failed c \<and>
      (\<exists>before. stdout w' =
         before @ [''Total TIFF: '' @ str_int (count_total c),
                   ''Converted : '' @ str_int (count_done c),
                   ''Skipped   : '' @ str_int (count_skipped c),
                   ''Failed    : '' @ str_int (count_failed c)])) \<and>
   (is_file (fs v) src \<and> lower (suffix src) \<in> {''.tif'', ''.tiff''} \<and>
    loop_body lib src d v = (Inr d', v') \<longrightarrow>
      count_total d' = count_total d + 1 \<and>
      (count_done d' = count_done d + 1 \<and> count_skipped d' = count_skipped d \<and>
         count_failed d' = count_failed d \<or>
       count_done d' = count_done d \<and> count_skipped d' = count_skipped d + 1 \<and>
         count_failed d' = count_failed d \<or>
       count_done d' = count_done d \<and> count_skipped d' = count_skipped d \<and>
         count_failed d' = count_failed d + 1))"
proof (intro conjI impI)
  assume m: "main lib w = (Returned c, w')"
  from main_tally[OF m]
  show "count_done c + count_skipped c + count_failed c = count_total c" by simp
  from main_tally[OF m] show "0 \<le> count_total c" by linarith
  from main_tally[OF m] show "0 \<le> count_done c" by simp
  from main_tally[OF m] show "0 \<le> count_skipped c" by simp
  from main_tally[OF m] show "0 \<le> count_failed c" by simp
  from main_loop[OF m] obtain w1 where
    w': "w' = w1\<lparr>stdout := stdout w1 @ report_lines c w1\<rparr>" by blast
  have "stdout w' =
      (stdout w1 @ [''=== TIFF -> PNG Done ==='',
                    ''Input dir : '' @ str_resolved w1 IN_DIR,
                    ''Output dir: '' @ str_resolved w1 OUT_DIR]) @
      [''Total TIFF: '' @ str_int (count_total c),
       ''Converted : '' @ str_int (count_done c),
       ''Skipped   : '' @ str_int (count_skipped c),
       ''Failed    : '' @ str_int (count_failed c)]"
    unfolding w' report_lines_def by simp
  then show "\<exists>before. stdout w' =
         before @ [''Total TIFF: '' @ str_int (count_total c),
                   ''Converted : '' @ str_int (count_done c),
                   ''Skipped   : '' @ str_int (count_skipped c),
                   ''Failed    : '' @ str_int (count_failed c)]"
    by blast
next
  assume a: "is_file (fs v) src \<and> lower (suffix src) \<in> {''.tif'', ''.tiff''} \<and>
    loop_body lib src d v = (Inr d', v')"
  then have b: "loop_body lib src d v = (Inr d', v')" by simp
  from b obtain f where f: "is_file_call v src = Inr f"
    by (auto simp: loop_body_def split: sum.splits)
  from is_file_call_Inr[OF f] a have c: "\<not> (\<not> f)"
    "\<not> (lower (suffix src) \<notin> {''.tif'', ''.tiff''})"
    by simp_all
  note body = b[unfolded loop_body_def f sum.case if_not_P[OF c(1)] if_not_P[OF c(2)] Let_def]
  from body show "count_total d' = count_total d + 1"
    by (auto split: sum.splits if_splits prod.splits bool.splits)
  from body show "count_done d' = count_done d + 1 \<and> count_skipped d' = count_skipped d \<and>
         count_failed d' = count_failed d \<or>
       count_done d' = count_done d \<and> count_skipped d' = count_skipped d + 1 \<and>
         count_failed d' = count_failed d \<or>
       count_done d' = count_done d \<and> count_skipped d' = count_skipped d \<and>
         count_failed d' = count_failed d + 1"
    by (auto split: sum.splits if_splits prod.splits bool.splits)
qed

theorem tallies_partition_total_witness:
  "main example_lib example_world =
     (Returned \<lparr>count_total = 4, count_done = 2, count_skipped = 1, count_failed = 1\<rparr>,
      snd (main example_lib example_world)) \<and>
   (2::int) + 1 + 1 = 4 \<and>
   is_file (fs example_world) [''public'', ''patterns'', ''a.tif''] \<and>
   lower (suffix [''public'', ''patterns'', ''a.tif'']) \<in> {''.tif'', ''.tiff''} \<and>
   fst (loop_body example_lib [''public'', ''patterns'', ''a.tif'']
     \<lparr>count_total = 0, count_done = 0, count_skipped = 0, count_failed = 0\<rparr> example_world) =
   Inr \<lparr>count_total = 1, count_done = 1, count_skipped = 0, count_failed = 0\<rparr>"
proof -
  have m: "main example_lib example_world =
     (Returned \<lparr>count_total = 4, count_done = 2, count_skipped = 1, count_failed = 1\<rparr>,
      snd (main example_lib example_world))"
    using example_run by (metis prod.collapse)
  have f: "is_file (fs example_world) [''public'', ''patterns'', ''a.tif'']"
    by code_simp
  have s: "lower (suffix [''public'', ''patterns'', ''a.tif'']) \<in> {''.tif'', ''.tiff''}"
    by code_simp
  note t = tallies_partition_total[of example_lib example_world
      "\<lparr>count_total = 4, count_done = 2, count_skipped = 1, count_failed = 1\<rparr>"
      "snd (main example_lib example_world)" example_world "[''public'', ''patterns'', ''a.tif'']"
      "\<lparr>count_total = 0, count_done = 0, count_skipped = 0, count_failed = 0\<rparr>"
      "\<lparr>count_total = 1, count_done = 1, count_skipped = 0, count_failed = 0\<rparr>"
      "snd (loop_body example_lib [''public'', ''patterns'', ''a.tif'']
     \<lparr>count_total = 0, count_done = 0, count_skipped = 0, count_failed = 0\<rparr> example_world)"]
  have e: "fst (loop_body example_lib [''public'', ''patterns'', ''a.tif'']
     \<lparr>count_total = 0, count_done = 0, count_skipped = 0, count_failed = 0\<rparr> example_world) =
   Inr \<lparr>count_total = 1, count_done = 1, count_skipped = 0, count_failed = 0\<rparr>"
    using example_step by (metis fst_conv)
  have ar: "(2::int) + 1 + 1 = 4" by simp
  from t m f s e ar show ?thesis by blast
qed

subsection \<open>C4: the destination mirrors the relative path\<close>

text \<open>
  C4. For a candidate at \<open>R / rel\<close> the destination computed on lines 50 and 51 is the
  output root joined with \<open>rel\<close>, whose directories are kept and whose last part has its
  suffix replaced by \<open>.png\<close>. The witness is the example of the specification:
  \<open>R/a/b/img.tiff\<close> goes to \<open>O/a/b/img.png\<close>.
\<close>

theorem dest_of_mirrors:
  assumes "rel \<noteq> []"
    and "lower (suffix (R @ rel)) \<in> {''.tif'', ''.tiff''}"
  shows "\<exists>stem. last rel = stem @ suffix (R @ rel) \<and>
           dest_of R Out (R @ rel) = Inr (Out @ butlast rel @ [stem @ ''.png''])"
proof -
  from assms(2) have s: "suffix (R @ rel) \<noteq> []" by (rule tiff_suffix_nonempty)
  with assms(1) have s': "suffix rel \<noteq> []" by (simp add: suffix_append)
  let ?stem = "take (length (last rel) - length (suffix rel)) (last rel)"
  from assms(1) have n: "name rel = last rel" by (simp add: name_def)
  from name_split[OF s'] n have "last rel = ?stem @ suffix rel" by simp
  with assms(1) have "last rel = ?stem @ suffix (R @ rel)" by (simp add: suffix_append)
  moreover from dest_of_under[OF assms(1) s]
  have "dest_of R Out (R @ rel) = Inr (Out @ butlast rel @ [?stem @ ''.png''])" .
  ultimately show ?thesis by blast
qed

theorem dest_of_mirrors_witness:
  "[''a'', ''b'', ''img.tiff''] \<noteq> [] \<and>
   lower (suffix ([''R''] @ [''a'', ''b'', ''img.tiff''])) \<in> {''.tif'', ''.tiff''} \<and>
   suffix ([''R''] @ [''a'', ''b'', ''img.tiff'']) = ''.tiff'' \<and>
   dest_of [''R''] [''O''] [''R'', ''a'', ''b'', ''img.tiff''] = Inr [''O'', ''a'', ''b'', ''img.png'']"
proof -
  have a: "[''a'', ''b'', ''img.tiff''] \<noteq> ([] :: path)" by simp
  have b: "lower (suffix ([''R''] @ [''a'', ''b'', ''img.tiff''])) \<in> {''.tif'', ''.tiff''}"
    by code_simp
  have c: "suffix ([''R''] @ [''a'', ''b'', ''img.tiff'']) = ''.tiff''" by code_simp
  from dest_of_mirrors[OF a b, of "[''O'']"] obtain stem where
    st: "last [''a'', ''b'', ''img.tiff''] = stem @ suffix ([''R''] @ [''a'', ''b'', ''img.tiff''])"
    and d: "dest_of [''R''] [''O''] ([''R''] @ [''a'', ''b'', ''img.tiff'']) =
              Inr ([''O''] @ butlast [''a'', ''b'', ''img.tiff''] @ [stem @ ''.png''])"
    by blast
  from st c have "''img'' @ ''.tiff'' = stem @ ''.tiff''" by simp
  then have "stem = ''img''" by (simp only: append_same_eq)
  with d have "dest_of [''R''] [''O''] [''R'', ''a'', ''b'', ''img.tiff''] = Inr [''O'', ''a'', ''b'', ''img.png'']"
    by simp
  with a b c show ?thesis by blast
qed

subsection \<open>C7: the colour mode is normalised before encoding\<close>

text \<open>What \<open>convert_one\<close> does once the directories exist and the source is decoded.\<close>

lemma convert_one_after_open:
  assumes "mkdir_parents (fs w) (parent dst) = Inr t"
    and "image_open lib t src = Inr im0"
  shows "convert_one lib src dst w =
     (let w3 = call (CallSeek im0 0) (call (CallOpen src) (call (CallMkdir (parent dst)) w\<lparr>fs := t\<rparr>));
          im1 = (case pil_seek lib im0 0 of Inl e \<Rightarrow> im0 | Inr im' \<Rightarrow> im')
      in if pil_mode lib im1 \<notin> {''RGB'', ''RGBA''}
         then (case pil_convert lib im1 ''RGB'' of
                 Inl e \<Rightarrow> (Inl e, call (CallConvert im1 ''RGB'') w3)
               | Inr im2 \<Rightarrow>
                   (fst (image_save lib t im2 dst),
                    (call (CallSave im2 dst) (call (CallConvert im1 ''RGB'') w3))
                      \<lparr>fs := snd (image_save lib t im2 dst)\<rparr>))
         else (fst (image_save lib t im1 dst),
               (call (CallSave im1 dst) w3)\<lparr>fs := snd (image_save lib t im1 dst)\<rparr>))"
  using assms
  by (simp add: convert_one_def Let_def split: sum.splits prod.splits)

lemma convert_one_mkdir_fails:
  assumes "mkdir_parents (fs w) (parent dst) = Inl e"
  shows "convert_one lib src dst w =
           (Inl (OSError e (str_path (parent dst))), call (CallMkdir (parent dst)) w)"
  using assms by (simp add: convert_one_def Let_def)

lemma convert_one_keeps_mode:
  assumes "mkdir_parents (fs w) (parent dst) = Inr t"
    and "image_open lib t src = Inr im0"
    and "im1 = (case pil_seek lib im0 0 of Inl e \<Rightarrow> im0 | Inr im' \<Rightarrow> im')"
    and "pil_mode lib im1 \<in> {''RGB'', ''RGBA''}"
  shows "convert_one lib src dst w =
     (fst (image_save lib t im1 dst),
      (call (CallSave im1 dst)
         (call (CallSeek im0 0) (call (CallOpen src) (call (CallMkdir (parent dst)) w\<lparr>fs := t\<rparr>))))
       \<lparr>fs := snd (image_save lib t im1 dst)\<rparr>)"
proof -
  from assms(4) have m: "\<not> pil_mode lib (case pil_seek lib im0 0 of Inl e \<Rightarrow> im0 | Inr im' \<Rightarrow> im')
                          \<notin> {''RGB'', ''RGBA''}"
    unfolding assms(3) by simp
  show ?thesis
    unfolding assms(3) convert_one_after_open[OF assms(1,2)] Let_def if_not_P[OF m] ..
qed

lemma convert_one_converts_mode:
  assumes "mkdir_parents (fs w) (parent dst) = Inr t"
    and "image_open lib t src = Inr im0"
    and "im1 = (case pil_seek lib im0 0 of Inl e \<Rightarrow> im0 | Inr im' \<Rightarrow> im')"
    and "pil_mode lib im1 \<notin> {''RGB'', ''RGBA''}"
  shows "convert_one lib src dst w =
     (case pil_convert lib im1 ''RGB'' of
        Inl e \<Rightarrow>
          (Inl e,
           call (CallConvert im1 ''RGB'')
             (call (CallSeek im0 0) (call (CallOpen src) (call (CallMkdir (parent dst)) w\<lparr>fs := t\<rparr>))))
      | Inr im2 \<Rightarrow>
          (fst (image_save lib t im2 dst),
           (call (CallSave im2 dst)
              (call (CallConvert im1 ''RGB'')
                 (call (CallSeek im0 0) (call (CallOpen src) (call (CallMkdir (parent dst)) w\<lparr>fs := t\<rparr>)))))
            \<lparr>fs := snd (image_save lib t im2 dst)\<rparr>))"
proof -
  from assms(4) have m: "pil_mode lib (case pil_seek lib im0 0 of Inl e \<Rightarrow> im0 | Inr im' \<Rightarrow> im')
                          \<notin> {''RGB'', ''RGBA''}"
    unfolding assms(3) by simp
  show ?thesis
    unfolding assms(3) convert_one_after_open[OF assms(1,2)] Let_def if_P[OF m] ..
qed

text \<open>
  C7. In \<open>convert_one\<close>, with the parent chain created and the source decoded to \<open>im0\<close>,
  let \<open>im1\<close> be the image after the attempt to select the first frame. If its mode is
  \<open>RGB\<close> or \<open>RGBA\<close>, no conversion is called and \<open>im1\<close> itself is what \<open>save\<close> encodes.
  Otherwise \<open>convert("RGB")\<close> is called on \<open>im1\<close> before \<open>save\<close>, and its result is what
  \<open>save\<close> encodes; when the conversion raises, the error leaves \<open>convert_one\<close> and
  nothing is saved.
\<close>

theorem convert_one_normalises_mode:
  assumes "mkdir_parents (fs w) (parent dst) = Inr t"
    and "image_open lib t src = Inr im0"
    and "im1 = (case pil_seek lib im0 0 of Inl e \<Rightarrow> im0 | Inr im' \<Rightarrow> im')"
  shows
    "(pil_mode lib im1 \<in> {''RGB'', ''RGBA''} \<longrightarrow>
        calls (snd (convert_one lib src dst w)) =
          calls w @ [CallMkdir (parent dst), CallOpen src, CallSeek im0 0, CallSave im1 dst] \<and>
        (fst (convert_one lib src dst w), fs (snd (convert_one lib src dst w))) =
          image_save lib t im1 dst) \<and>
     (pil_mode lib im1 \<notin> {''RGB'', ''RGBA''} \<longrightarrow>
        (\<forall>im2. pil_convert lib im1 ''RGB'' = Inr im2 \<longrightarrow>
           calls (snd (convert_one lib src dst w)) =
             calls w @ [CallMkdir (parent dst), CallOpen src, CallSeek im0 0,
                        CallConvert im1 ''RGB'', CallSave im2 dst] \<and>
           (fst (convert_one lib src dst w), fs (snd (convert_one lib src dst w))) =
             image_save lib t im2 dst) \<and>
        (\<forall>e. pil_convert lib im1 ''RGB'' = Inl e \<longrightarrow>
           fst (convert_one lib src dst w) = Inl e \<and>
           calls (snd (convert_one lib src dst w)) =
             calls w @ [CallMkdir (parent dst), CallOpen src, CallSeek im0 0,
                        CallConvert im1 ''RGB'']))"
proof (intro conjI impI allI)
  assume m: "pil_mode lib im1 \<in> {''RGB'', ''RGBA''}"
  note E = convert_one_keeps_mode[OF assms m]
  show
    "calls (snd (convert_one lib src dst w)) =
       calls w @ [CallMkdir (parent dst), CallOpen src, CallSeek im0 0, CallSave im1 dst]"
    by (simp add: E)
  show
    "(fst (convert_one lib src dst w), fs (snd (convert_one lib src dst w))) =
       image_save lib t im1 dst"
    by (simp add: E)
next
  fix im2
  assume m: "pil_mode lib im1 \<notin> {''RGB'', ''RGBA''}"
    and c: "pil_convert lib im1 ''RGB'' = Inr im2"
  note E = convert_one_converts_mode[OF assms m]
  from c show
    "calls (snd (convert_one lib src dst w)) =
       calls w @ [CallMkdir (parent dst), CallOpen src, CallSeek im0 0,
                  CallConvert im1 ''RGB'', CallSave im2 dst]"
    by (simp add: E)
  from c show
    "(fst (convert_one lib src dst w), fs (snd (convert_one lib src dst w))) =
       image_save lib t im2 dst"
    by (simp add: E)
next
  fix e
  assume m: "pil_mode lib im1 \<notin> {''RGB'', ''RGBA''}"
    and c: "pil_convert lib im1 ''RGB'' = Inl e"
  note E = convert_one_converts_mode[OF assms m]
  from c show "fst (convert_one lib src dst w) = Inl e"
    by (simp add: E)
  from c show
    "calls (snd (convert_one lib src dst w)) =
       calls w @ [CallMkdir (parent dst), CallOpen src, CallSeek im0 0, CallConvert im1 ''RGB'']"
    by (simp add: E)
qed

theorem convert_one_normalises_mode_witness:
  "mkdir_parents (fs example_world) (parent [''public'', ''patterns_png'', ''sub'', ''b.png'']) =
     Inr (example_tree [(''patterns_png'', Dir [(''sub'', Dir [])])]) \<and>
   image_open example_lib (example_tree [(''patterns_png'', Dir [(''sub'', Dir [])])])
     [''public'', ''patterns'', ''sub'', ''b.TIFF''] = Inr ''RGBA'' \<and>
   pil_mode example_lib ''RGBA'' \<in> {''RGB'', ''RGBA''} \<and>
   calls (snd (convert_one example_lib [''public'', ''patterns'', ''sub'', ''b.TIFF'']
                 [''public'', ''patterns_png'', ''sub'', ''b.png''] example_world)) =
     [CallMkdir [''public'', ''patterns_png'', ''sub''],
      CallOpen [''public'', ''patterns'', ''sub'', ''b.TIFF''],
      CallSeek ''RGBA'' 0,
      CallSave ''RGBA'' [''public'', ''patterns_png'', ''sub'', ''b.png'']] \<and>
   mkdir_parents (fs example_world) (parent [''public'', ''patterns_png'', ''a.png'']) =
     Inr (example_tree [(''patterns_png'', Dir [])]) \<and>
   image_open example_lib (example_tree [(''patterns_png'', Dir [])])
     [''public'', ''patterns'', ''a.tiff''] = Inr ''P'' \<and>
   pil_mode example_lib ''P'' \<notin> {''RGB'', ''RGBA''} \<and>
   pil_convert example_lib ''P'' ''RGB'' = Inr ''RGB'' \<and>
   calls (snd (convert_one example_lib [''public'', ''patterns'', ''a.tiff'']
                 [''public'', ''patterns_png'', ''a.png''] example_world)) =
     [CallMkdir [''public'', ''patterns_png''],
      CallOpen [''public'', ''patterns'', ''a.tiff''],
      CallSeek ''P'' 0,
      CallConvert ''P'' ''RGB'',
      CallSave ''RGB'' [''public'', ''patterns_png'', ''a.png'']]"
proof -
  have a1: "mkdir_parents (fs example_world) (parent [''public'', ''patterns_png'', ''sub'', ''b.png'']) =
     Inr (example_tree [(''patterns_png'', Dir [(''sub'', Dir [])])])"
    by code_simp
  have b1: "image_open example_lib (example_tree [(''patterns_png'', Dir [(''sub'', Dir [])])])
     [''public'', ''patterns'', ''sub'', ''b.TIFF''] = Inr ''RGBA''"
    by code_simp
  have c1: "''RGBA'' = (case pil_seek example_lib ''RGBA'' 0 of Inl e \<Rightarrow> ''RGBA'' | Inr im' \<Rightarrow> im')"
    by (simp add: example_lib_def)
  have d1: "pil_mode example_lib ''RGBA'' \<in> {''RGB'', ''RGBA''}"
    by (simp add: example_lib_def)
  have a2: "mkdir_parents (fs example_world) (parent [''public'', ''patterns_png'', ''a.png'']) =
     Inr (example_tree [(''patterns_png'', Dir [])])"
    by code_simp
  have b2: "image_open example_lib (example_tree [(''patterns_png'', Dir [])])
     [''public'', ''patterns'', ''a.tiff''] = Inr ''P''"
    by code_simp
  have c2: "''P'' = (case pil_seek example_lib ''P'' 0 of Inl e \<Rightarrow> ''P'' | Inr im' \<Rightarrow> im')"
    by (simp add: example_lib_def)
  have d2: "pil_mode example_lib ''P'' \<notin> {''RGB'', ''RGBA''}"
    by (simp add: example_lib_def)
  have e2: "pil_convert example_lib ''P'' ''RGB'' = Inr ''RGB''"
    by (simp add: example_lib_def)
  have n: "calls example_world = []" by (simp add: example_world_def)
  have p1: "parent [''public'', ''patterns_png'', ''sub'', ''b.png''] = [''public'', ''patterns_png'', ''sub'']"
    by (simp add: parent_def)
  have p2: "parent [''public'', ''patterns_png'', ''a.png''] = [''public'', ''patterns_png'']"
    by (simp add: parent_def)
  from convert_one_normalises_mode[OF a1 b1 c1, THEN conjunct1, THEN mp, OF d1, THEN conjunct1]
  have r1: "calls (snd (convert_one example_lib [''public'', ''patterns'', ''sub'', ''b.TIFF'']
                 [''public'', ''patterns_png'', ''sub'', ''b.png''] example_world)) =
     [CallMkdir [''public'', ''patterns_png'', ''sub''],
      CallOpen [''public'', ''patterns'', ''sub'', ''b.TIFF''],
      CallSeek ''RGBA'' 0,
      CallSave ''RGBA'' [''public'', ''patterns_png'', ''sub'', ''b.png'']]"
    by (simp add: n p1)
  from convert_one_normalises_mode[OF a2 b2 c2, THEN conjunct2, THEN mp, OF d2, THEN conjunct1,
         rule_format, OF e2, THEN conjunct1]
  have r2: "calls (snd (convert_one example_lib [''public'', ''patterns'', ''a.tiff'']
                 [''public'', ''patterns_png'', ''a.png''] example_world)) =
     [CallMkdir [''public'', ''patterns_png''],
      CallOpen [''public'', ''patterns'', ''a.tiff''],
      CallSeek ''P'' 0,
      CallConvert ''P'' ''RGB'',
      CallSave ''RGB'' [''public'', ''patterns_png'', ''a.png'']]"
    by (simp add: n p2)
  from a1 b1 d1 r1 a2 b2 d2 e2 r2 show ?thesis by blast
qed

subsection \<open>C8: a failing seek is ignored\<close>

lemma image_open_seek_update [simp]:
  "image_open (lib\<lparr>pil_seek := f\<rparr>) t src = image_open lib t src"
  by (simp add: image_open_def split: sum.splits node.splits)

lemma image_save_seek_update [simp]:
  "image_save (lib\<lparr>pil_seek := f\<rparr>) t im dst = image_save lib t im dst"
  by (simp add: image_save_def split: save_result.splits)

text \<open>
  C8. When \<open>im.seek(0)\<close> raises on the decoded image, \<open>convert_one\<close> behaves exactly as
  with a library whose \<open>seek\<close> succeeds and leaves the image as it is: the error does
  not reach the caller, and the decoded image goes on unchanged to the mode test, the
  conversion and the encoder.
\<close>

theorem seek_failure_is_swallowed:
  assumes "mkdir_parents (fs w) (parent dst) = Inr t"
    and "image_open lib t src = Inr im0"
    and "pil_seek lib im0 0 = Inl e"
  shows
    "convert_one lib src dst w = convert_one (lib\<lparr>pil_seek := \<lambda>im n. Inr im\<rparr>) src dst w \<and>
     (pil_mode lib im0 \<in> {''RGB'', ''RGBA''} \<longrightarrow>
        (fst (convert_one lib src dst w), fs (snd (convert_one lib src dst w))) =
          image_save lib t im0 dst) \<and>
     (pil_mode lib im0 \<notin> {''RGB'', ''RGBA''} \<longrightarrow>
        (\<forall>im2. pil_convert lib im0 ''RGB'' = Inr im2 \<longrightarrow>
           (fst (convert_one lib src dst w), fs (snd (convert_one lib src dst w))) =
             image_save lib t im2 dst))"
proof (intro conjI impI allI)
  have o: "image_open (lib\<lparr>pil_seek := \<lambda>im n. Inr im\<rparr>) t src = Inr im0"
    using assms(2) by simp
  show "convert_one lib src dst w = convert_one (lib\<lparr>pil_seek := \<lambda>im n. Inr im\<rparr>) src dst w"
    unfolding convert_one_after_open[OF assms(1,2)] convert_one_after_open[OF assms(1) o]
    using assms(3) by (simp add: Let_def split: sum.splits)
next
  have i: "im0 = (case pil_seek lib im0 0 of Inl e \<Rightarrow> im0 | Inr im' \<Rightarrow> im')"
    using assms(3) by simp
  {
    assume m: "pil_mode lib im0 \<in> {''RGB'', ''RGBA''}"
    show "(fst (convert_one lib src dst w), fs (snd (convert_one lib src dst w))) =
            image_save lib t im0 dst"
      by (simp add: convert_one_keeps_mode[OF assms(1,2) i m])
  next
    fix im2
    assume m: "pil_mode lib im0 \<notin> {''RGB'', ''RGBA''}"
      and c: "pil_convert lib im0 ''RGB'' = Inr im2"
    show "(fst (convert_one lib src dst w), fs (snd (convert_one lib src dst w))) =
            image_save lib t im2 dst"
      using c by (simp add: convert_one_converts_mode[OF assms(1,2) i m])
  }
qed

theorem seek_failure_is_swallowed_witness:
  "mkdir_parents (fs example_world) (parent [''public'', ''patterns_png'', ''a.png'']) =
     Inr (example_tree [(''patterns_png'', Dir [])]) \<and>
   image_open example_lib (example_tree [(''patterns_png'', Dir [])])
     [''public'', ''patterns'', ''a.tif''] = Inr ''L'' \<and>
   pil_seek example_lib ''L'' 0 = Inl (ImageError ''seek is not supported'') \<and>
   pil_mode example_lib ''L'' \<notin> {''RGB'', ''RGBA''} \<and>
   pil_convert example_lib ''L'' ''RGB'' = Inr ''RGB'' \<and>
   fst (convert_one example_lib [''public'', ''patterns'', ''a.tif'']
          [''public'', ''patterns_png'', ''a.png''] example_world) = Inr () \<and>
   fs (snd (convert_one example_lib [''public'', ''patterns'', ''a.tif'']
          [''public'', ''patterns_png'', ''a.png''] example_world)) =
     example_tree [(''patterns_png'', Dir [(''a.png'', File ''PNG RGB'')])]"
proof -
  have a: "mkdir_parents (fs example_world) (parent [''public'', ''patterns_png'', ''a.png'']) =
     Inr (example_tree [(''patterns_png'', Dir [])])"
    by code_simp
  have b: "image_open example_lib (example_tree [(''patterns_png'', Dir [])])
     [''public'', ''patterns'', ''a.tif''] = Inr ''L''"
    by code_simp
  have c: "pil_seek example_lib ''L'' 0 = Inl (ImageError ''seek is not supported'')"
    by (simp add: example_lib_def)
  have d: "pil_mode example_lib ''L'' \<notin> {''RGB'', ''RGBA''}"
    by (simp add: example_lib_def)
  have e: "pil_convert example_lib ''L'' ''RGB'' = Inr ''RGB''"
    by (simp add: example_lib_def)
  have s: "image_save example_lib (example_tree [(''patterns_png'', Dir [])]) ''RGB''
             [''public'', ''patterns_png'', ''a.png''] =
           (Inr (), example_tree [(''patterns_png'', Dir [(''a.png'', File ''PNG RGB'')])])"
    by code_simp
  from seek_failure_is_swallowed[OF a b c] d e
  have "(fst (convert_one example_lib [''public'', ''patterns'', ''a.tif'']
          [''public'', ''patterns_png'', ''a.png''] example_world),
         fs (snd (convert_one example_lib [''public'', ''patterns'', ''a.tif'']
          [''public'', ''patterns_png'', ''a.png''] example_world))) =
        image_save example_lib (example_tree [(''patterns_png'', Dir [])]) ''RGB''
             [''public'', ''patterns_png'', ''a.png'']"
    by blast
  with s have "fst (convert_one example_lib [''public'', ''patterns'', ''a.tif'']
          [''public'', ''patterns_png'', ''a.png''] example_world) = Inr () \<and>
   fs (snd (convert_one example_lib [''public'', ''patterns'', ''a.tif'']
          [''public'', ''patterns_png'', ''a.png''] example_world)) =
     example_tree [(''patterns_png'', Dir [(''a.png'', File ''PNG RGB'')])]"
    by simp
  with a b c d e show ?thesis by blast
qed

subsection \<open>C10: the parent chain of the destination\<close>

lemma stat_prefix_dir:
  assumes "stat t p = Inr (Dir es)"
  shows "\<exists>es'. stat t (take k p) = Inr (Dir es')"
proof -
  have "stat t (take k p @ drop k p) = Inr (Dir es)" using assms by simp
  then obtain n where n: "stat t (take k p) = Inr n" and d: "stat n (drop k p) = Inr (Dir es)"
    unfolding stat_append by (auto split: sum.splits)
  show ?thesis
  proof (cases n)
    case (File b)
    with d show ?thesis by (simp add: stat_File_Cons)
  next
    case (Dir ds)
    with n show ?thesis by simp
  qed
qed

lemma convert_one_fs_after_mkdir:
  assumes "mkdir_parents (fs w) (parent dst) = Inr t"
  shows "fs (snd (convert_one lib src dst w)) = t \<or>
         (\<exists>b. write_file t dst b = Inr (fs (snd (convert_one lib src dst w))))"
  using assms unfolding convert_one_def Let_def
  by (auto split: sum.splits prod.splits if_splits dest: image_save_fs)

lemma convert_one_first_call:
  "take (Suc (length (calls w))) (calls (snd (convert_one lib src dst w))) =
     calls w @ [CallMkdir (parent dst)]"
  unfolding convert_one_def Let_def
  by (auto split: sum.splits prod.splits if_splits)

text \<open>
  C10, as amended. The first thing \<open>convert_one\<close> does is the creation of the parent
  chain of the destination, before the source is opened. When that creation succeeds,
  every directory of the chain exists after the call, whether the conversion then
  succeeds or fails at decoding, at the mode conversion or at encoding. When the
  creation itself fails, because a regular file stands in the chain, the call fails
  with that error and has changed nothing in the tree. The counterexample is such a
  run: the output root is a regular file, the conversion is attempted, and afterwards
  the parent of the destination is not a directory.
\<close>

theorem parent_chain_after_attempt:
  "(\<forall>t. mkdir_parents (fs w) (parent dst) = Inr t \<longrightarrow>
      (\<forall>k \<le> length (parent dst).
         is_dir (fs (snd (convert_one lib src dst w))) (take k (parent dst))) \<and>
      take (Suc (length (calls w))) (calls (snd (convert_one lib src dst w))) =
        calls w @ [CallMkdir (parent dst)]) \<and>
   (\<forall>e. mkdir_parents (fs w) (parent dst) = Inl e \<longrightarrow>
      convert_one lib src dst w =
        (Inl (OSError e (str_path (parent dst))), call (CallMkdir (parent dst)) w))"
proof (intro conjI allI impI)
  fix t k
  assume m: "mkdir_parents (fs w) (parent dst) = Inr t"
  let ?t' = "fs (snd (convert_one lib src dst w))"
  from mkdir_parents_is_dir[OF m] obtain es where es: "stat t (parent dst) = Inr (Dir es)"
    by blast
  have "\<exists>es'. stat ?t' (parent dst) = Inr (Dir es')"
  proof -
    from convert_one_fs_after_mkdir[OF m, of lib src]
    consider "?t' = t" | b where "write_file t dst b = Inr ?t'" by blast
    then show ?thesis
    proof cases
      case 1
      with es show ?thesis by simp
    next
      case 2
      from write_file_keeps[OF 2 es] show ?thesis by auto
    qed
  qed
  then obtain es' where "stat ?t' (parent dst) = Inr (Dir es')" by blast
  from stat_prefix_dir[OF this, of k]
  show "is_dir ?t' (take k (parent dst))" by (auto simp: is_dir_def)
next
  show "take (Suc (length (calls w))) (calls (snd (convert_one lib src dst w))) =
          calls w @ [CallMkdir (parent dst)]"
    by (rule convert_one_first_call)
next
  fix e
  assume "mkdir_parents (fs w) (parent dst) = Inl e"
  then show "convert_one lib src dst w =
        (Inl (OSError e (str_path (parent dst))), call (CallMkdir (parent dst)) w)"
    by (rule convert_one_mkdir_fails)
qed

theorem parent_chain_after_attempt_witness:
  "mkdir_parents (fs example_world) (parent [''public'', ''patterns_png'', ''sub'', ''d.png'']) =
     Inr (example_tree [(''patterns_png'', Dir [(''sub'', Dir [])])]) \<and>
   fst (convert_one example_lib [''public'', ''patterns'', ''sub'', ''d.tif'']
          [''public'', ''patterns_png'', ''sub'', ''d.png''] example_world) =
     Inl (ImageError ''cannot identify image file public/patterns/sub/d.tif'') \<and>
   is_dir (fs (snd (convert_one example_lib [''public'', ''patterns'', ''sub'', ''d.tif'']
                      [''public'', ''patterns_png'', ''sub'', ''d.png''] example_world)))
     [''public'', ''patterns_png'', ''sub''] \<and>
   is_dir (fs (snd (convert_one example_lib [''public'', ''patterns'', ''sub'', ''d.tif'']
                      [''public'', ''patterns_png'', ''sub'', ''d.png''] example_world)))
     [''public'', ''patterns_png''] \<and>
   \<not> is_dir (fs example_world) [''public'', ''patterns_png''] \<and>
   mkdir_parents (fs blocked_world) (parent [''public'', ''patterns_png'', ''a.png'']) = Inl EEXIST \<and>
   convert_one example_lib [''public'', ''patterns'', ''a.tif'']
     [''public'', ''patterns_png'', ''a.png''] blocked_world =
     (Inl (OSError EEXIST ''public/patterns_png''),
      call (CallMkdir [''public'', ''patterns_png'']) blocked_world)"
proof -
  let ?src = "[''public'', ''patterns'', ''sub'', ''d.tif'']"
  let ?dst = "[''public'', ''patterns_png'', ''sub'', ''d.png'']"
  have a: "mkdir_parents (fs example_world) (parent ?dst) =
     Inr (example_tree [(''patterns_png'', Dir [(''sub'', Dir [])])])"
    by code_simp
  have f: "fst (convert_one example_lib ?src ?dst example_world) =
     Inl (ImageError ''cannot identify image file public/patterns/sub/d.tif'')"
    by code_simp
  have p: "parent ?dst = [''public'', ''patterns_png'', ''sub'']" by (simp add: parent_def)
  have n: "\<not> is_dir (fs example_world) [''public'', ''patterns_png'']" by code_simp
  have b: "mkdir_parents (fs blocked_world) (parent [''public'', ''patterns_png'', ''a.png'']) = Inl EEXIST"
    by code_simp
  have q: "parent [''public'', ''patterns_png'', ''a.png''] = [''public'', ''patterns_png'']"
    by (simp add: parent_def)
  have s: "str_path [''public'', ''patterns_png''] = ''public/patterns_png''"
    by (simp add: str_path_def)
  note T = parent_chain_after_attempt[of example_world ?dst example_lib ?src]
  from T a have k: "\<forall>k \<le> length (parent ?dst).
      is_dir (fs (snd (convert_one example_lib ?src ?dst example_world))) (take k (parent ?dst))"
    by blast
  from k[rule_format, of 3] p
  have d3: "is_dir (fs (snd (convert_one example_lib ?src ?dst example_world)))
              [''public'', ''patterns_png'', ''sub'']"
    by simp
  from k[rule_format, of 2] p
  have d2: "is_dir (fs (snd (convert_one example_lib ?src ?dst example_world)))
              [''public'', ''patterns_png'']"
    by simp
  from parent_chain_after_attempt[of blocked_world "[''public'', ''patterns_png'', ''a.png'']"
         example_lib "[''public'', ''patterns'', ''a.tif'']"] b q s
  have c: "convert_one example_lib [''public'', ''patterns'', ''a.tif'']
     [''public'', ''patterns_png'', ''a.png''] blocked_world =
     (Inl (OSError EEXIST ''public/patterns_png''),
      call (CallMkdir [''public'', ''patterns_png'']) blocked_world)"
    by simp
  from a f d3 d2 n b c show ?thesis by blast
qed

theorem parent_chain_counterexample:
  "is_file (fs blocked_world) [''public'', ''patterns'', ''a.tif''] \<and>
   dest_of IN_DIR OUT_DIR [''public'', ''patterns'', ''a.tif''] =
     Inr [''public'', ''patterns_png'', ''a.png''] \<and>
   fst (convert_one example_lib [''public'', ''patterns'', ''a.tif'']
          [''public'', ''patterns_png'', ''a.png''] blocked_world) =
     Inl (OSError EEXIST ''public/patterns_png'') \<and>
   \<not> is_dir (fs (snd (convert_one example_lib [''public'', ''patterns'', ''a.tif'']
                        [''public'', ''patterns_png'', ''a.png''] blocked_world)))
         (parent [''public'', ''patterns_png'', ''a.png''])"
  by code_simp

subsection \<open>What the loop preserves\<close>

text \<open>
  One pass of the loop body writes only below the output root, at a destination that
  did not exist, so everything below the input root, every existing regular file and
  the existence of every path are preserved. The walk may therefore be taken once,
  before the loop: it is the same in every tree that the loop goes through.
\<close>

lemma preserves_refl: "preserves t t"
  by (simp add: preserves_def)

lemma preserves_trans: "preserves t t' \<Longrightarrow> preserves t' t'' \<Longrightarrow> preserves t t''"
  by (simp add: preserves_def)

lemma diverge_roots: "diverge (OUT_DIR @ xs) (IN_DIR @ q)"
  by (simp add: OUT_DIR_def IN_DIR_def)

lemma dest_of_candidate:
  assumes "rel \<noteq> []" and "lower (suffix (IN_DIR @ rel)) \<in> {''.tif'', ''.tiff''}"
    and "dest_of IN_DIR OUT_DIR (IN_DIR @ rel) = Inr dst"
  shows "\<exists>x. dst = OUT_DIR @ butlast rel @ [x]"
proof -
  from assms(2) have "suffix (IN_DIR @ rel) \<noteq> []" by (rule tiff_suffix_nonempty)
  from dest_of_under[OF assms(1) this, of OUT_DIR] assms(3) show ?thesis by simp
qed

lemma fs_step_preserves:
  assumes "fs_step dst t t'" and "\<not> path_exists t dst" and "dst = OUT_DIR @ ds @ [x]"
  shows "preserves t t'"
  unfolding preserves_def
proof (intro conjI allI impI)
  fix q
  have "parent dst = OUT_DIR @ ds" using assms(3) by (simp add: parent_def butlast_append)
  then have "diverge (parent dst) (IN_DIR @ q)" by (simp add: diverge_roots)
  from fs_step_frame[OF assms(1) this] show "stat t' (IN_DIR @ q) = stat t (IN_DIR @ q)" .
next
  fix q b
  assume s: "stat t q = Inr (File b)"
  with assms(2) have "q \<noteq> dst" by (auto simp: path_exists_def)
  with fs_step_keeps[OF assms(1) s] show "stat t' q = Inr (File b)" by auto
next
  fix q
  assume "path_exists t q"
  then obtain n where "stat t q = Inr n" by (auto simp: path_exists_def split: sum.splits)
  from fs_step_keeps[OF assms(1) this] show "path_exists t' q"
    by (auto simp: path_exists_def)
qed

lemma loop_body_preserves:
  assumes "loop_body lib (IN_DIR @ rel) c w = (Inr c', w')" and "rel \<noteq> []"
  shows "preserves (fs w) (fs w')"
  using assms
proof (cases rule: loop_body_cases)
  case ignored
  then show ?thesis by (simp add: preserves_refl)
next
  case (skipped dst)
  then show ?thesis by (simp add: preserves_refl)
next
  case (converted dst)
  from dest_of_candidate[OF assms(2) converted(2,3)] obtain x where
    "dst = OUT_DIR @ butlast rel @ [x]" by blast
  from fs_step_preserves[OF convert_one_fs[OF converted(5)] converted(4) this]
  show ?thesis .
next
  case (failed dst e w1)
  from dest_of_candidate[OF assms(2) failed(2,3)] obtain x where
    "dst = OUT_DIR @ butlast rel @ [x]" by blast
  from fs_step_preserves[OF convert_one_fs[OF failed(5)] failed(4) this] failed(7)
  show ?thesis by simp
qed

lemma loop_preserves:
  assumes "loop lib srcs c w = (Inr c', w')"
    and "\<forall>src \<in> set srcs. \<exists>rel. src = IN_DIR @ rel \<and> rel \<noteq> []"
  shows "preserves (fs w) (fs w')"
proof (rule loop_invariant[where I = "\<lambda>c v. preserves (fs w) (fs v)", OF assms(1)])
  show "preserves (fs w) (fs w)" by (rule preserves_refl)
next
  fix src d v d' and v' :: "'a world"
  assume s: "src \<in> set srcs" and i: "preserves (fs w) (fs v)"
    and b: "loop_body lib src d v = (Inr d', v')"
  from assms(2) s obtain rel where rel: "src = IN_DIR @ rel" "rel \<noteq> []" by blast
  from loop_body_preserves[of lib rel d v d' v'] b rel
  have "preserves (fs v) (fs v')" by simp
  with i show "preserves (fs w) (fs v')" by (rule preserves_trans)
qed

lemma preserves_candidate:
  "preserves t t' \<Longrightarrow> candidate t' (IN_DIR @ rel) = candidate t (IN_DIR @ rel)"
  by (simp add: preserves_def candidate_def is_file_def)

lemma preserves_rglob: "preserves t t' \<Longrightarrow> rglob t' IN_DIR = rglob t IN_DIR"
proof -
  assume "preserves t t'"
  then have "stat t' (IN_DIR @ []) = stat t (IN_DIR @ [])" unfolding preserves_def by blast
  then show ?thesis by (simp add: rglob_def)
qed

lemma preserves_exists: "preserves t t' \<Longrightarrow> path_exists t q \<Longrightarrow> path_exists t' q"
  by (simp add: preserves_def)

subsection \<open>C3: the total is the number of TIFF files below the input root\<close>

lemma suffix_Cons: "p \<noteq> [] \<Longrightarrow> suffix (n # p) = suffix p"
  using suffix_append[of p "[n]"] by simp

lemma candidate_Cons:
  assumes "map_of all n = Some c" and "p \<noteq> []"
  shows "candidate (Dir all) (n # p) = candidate c p"
  using assms by (simp add: candidate_def is_file_def suffix_Cons)

lemma candidate_single:
  assumes "map_of all n = Some c"
  shows "candidate (Dir all) [n] \<longleftrightarrow>
           (\<exists>b. c = File b) \<and> lower (suffix [n]) \<in> {''.tif'', ''.tiff''}"
  using assms by (cases c) (simp_all add: candidate_def is_file_def)

lemma count_walk:
  "wf_node r \<longrightarrow> length (filter (candidate r) (walk r)) = tiff_files r"
  "\<forall>all. distinct (map fst all) \<and> set es \<subseteq> set all \<and> wf_entries es \<longrightarrow>
     length (filter (candidate (Dir all)) (map (\<lambda>e. [fst e]) es)) +
     length (filter (candidate (Dir all)) (walk_entries es)) = tiff_files_entries es"
proof (induction r and es rule: walk_walk_entries.induct)
  case (1 b)
  show ?case by simp
next
  case (2 es)
  show ?case
  proof
    assume "wf_node (Dir es)"
    then have "distinct (map fst es) \<and> set es \<subseteq> set es \<and> wf_entries es" by simp
    with 2 have "length (filter (candidate (Dir es)) (map (\<lambda>e. [fst e]) es)) +
      length (filter (candidate (Dir es)) (walk_entries es)) = tiff_files_entries es"
      by blast
    then show "length (filter (candidate (Dir es)) (walk (Dir es))) = tiff_files (Dir es)"
      by simp
  qed
next
  case 3
  show ?case by simp
next
  case (4 e es)
  show ?case
  proof (intro allI impI)
    fix all
    assume a: "distinct (map fst all) \<and> set (e # es) \<subseteq> set all \<and> wf_entries (e # es)"
    obtain n c where e: "e = (n, c)" by (cases e)
    from a e have m: "map_of all n = Some c" by simp
    from a have rest: "distinct (map fst all) \<and> set es \<subseteq> set all \<and> wf_entries es" by simp
    with 4(2) have ih2: "length (filter (candidate (Dir all)) (map (\<lambda>e. [fst e]) es)) +
      length (filter (candidate (Dir all)) (walk_entries es)) = tiff_files_entries es"
      by blast
    from a e have "wf_node c" by simp
    with 4(1) e have ih1: "length (filter (candidate c) (walk c)) = tiff_files c" by simp
    have "filter (candidate (Dir all)) (map ((#) n) (walk c)) =
          map ((#) n) (filter (candidate c) (walk c))"
    proof -
      have "\<And>p. p \<in> set (walk c) \<Longrightarrow> candidate (Dir all) (n # p) = candidate c p"
        using candidate_Cons[OF m] walk_nonempty(1)[of c] by metis
      then show ?thesis by (simp add: filter_map comp_def cong: filter_cong)
    qed
    then have deep: "length (filter (candidate (Dir all)) (map ((#) n) (walk c))) = tiff_files c"
      using ih1 by simp
    show "length (filter (candidate (Dir all)) (map (\<lambda>e. [fst e]) (e # es))) +
      length (filter (candidate (Dir all)) (walk_entries (e # es))) = tiff_files_entries (e # es)"
    proof (cases c)
      case (File b)
      with e deep ih2 candidate_single[OF m] show ?thesis by simp
    next
      case (Dir ds)
      with e deep ih2 candidate_single[OF m] show ?thesis by simp
    qed
  qed
qed

lemma candidate_under:
  assumes "stat t root = Inr r" and "p \<noteq> []"
  shows "candidate t (root @ p) = candidate r p"
  using assms by (simp add: candidate_def is_file_def stat_append suffix_append)

lemma count_rglob:
  assumes "stat t root = Inr r" and "wf_node r"
  shows "length (filter (candidate t) (rglob t root)) = tiff_files r"
proof (cases r)
  case (File b)
  with assms(1) show ?thesis by (simp add: rglob_def)
next
  case (Dir es)
  have "\<And>p. p \<in> set (walk r) \<Longrightarrow> candidate t (root @ p) = candidate r p"
    using candidate_under[OF assms(1)] walk_nonempty(1)[of r] by metis
  then have "filter (candidate t) (map ((@) root) (walk r)) =
             map ((@) root) (filter (candidate r) (walk r))"
    by (simp add: filter_map comp_def cong: filter_cong)
  moreover from Dir assms(1) have "rglob t root = map ((@) root) (walk r)"
    by (simp add: rglob_def joinpath_def[abs_def])
  ultimately show ?thesis using count_walk(1)[of r] assms(2) by simp
qed

lemma loop_total_count:
  assumes "loop lib srcs c v = (Inr c', v')"
    and "\<forall>src \<in> set srcs. \<exists>rel. src = IN_DIR @ rel \<and> rel \<noteq> []"
    and "preserves t (fs v)"
  shows "count_total c' = count_total c + int (length (filter (candidate t) srcs))"
  using assms
proof (induction srcs arbitrary: c v)
  case Nil
  then show ?case by simp
next
  case (Cons src rest)
  from Cons.prems(2) obtain rel where rel: "src = IN_DIR @ rel" "rel \<noteq> []" by auto
  from Cons.prems(1) obtain c1 v1 where
    b: "loop_body lib (IN_DIR @ rel) c v = (Inr c1, v1)" and l: "loop lib rest c1 v1 = (Inr c', v')"
    unfolding rel by (auto split: prod.splits sum.splits)
  from loop_body_preserves[OF b rel(2)] Cons.prems(3) have p1: "preserves t (fs v1)"
    by (blast intro: preserves_trans)
  from Cons.prems(2) have r: "\<forall>src \<in> set rest. \<exists>rel. src = IN_DIR @ rel \<and> rel \<noteq> []" by simp
  from Cons.IH[OF l r p1]
  have ih: "count_total c' = count_total c1 + int (length (filter (candidate t) rest))" .
  have cv: "candidate t (IN_DIR @ rel) = candidate (fs v) (IN_DIR @ rel)"
    using preserves_candidate[OF Cons.prems(3)] by simp
  from b rel(2) have "count_total c1 = count_total c + (if candidate t (IN_DIR @ rel) then 1 else 0)"
    unfolding cv by (cases rule: loop_body_cases) (auto simp: candidate_def)
  with ih rel show ?case by simp
qed

text \<open>
  C3. When \<open>main\<close> returns, the total equals the number of regular files anywhere below
  the input root whose suffix, compared without case, is \<open>.tif\<close> or \<open>.tiff\<close> (the tree
  below the input root being well formed: no directory lists a name twice); and the
  loop body leaves every counter and the world as they are on an entry that is a
  directory or a regular file with any other suffix. For a path that is not a
  candidate, whether the tree holds it or not, the loop body never changes the world
  and never gives a changed tally.
\<close>

theorem total_counts_tiff_files:
  "(main lib w = (Returned c, w') \<and> stat (fs w) IN_DIR = Inr root \<and> wf_node root \<longrightarrow>
      count_total c = int (tiff_files root)) \<and>
   (path_exists (fs v) src \<and> \<not> candidate (fs v) src \<longrightarrow> loop_body lib src d v = (Inr d, v)) \<and>
   (\<not> candidate (fs v) src \<longrightarrow>
      snd (loop_body lib src d v) = v \<and>
      (\<forall>d'. fst (loop_body lib src d v) = Inr d' \<longrightarrow> d' = d))"
proof (intro conjI impI allI)
  assume a: "main lib w = (Returned c, w') \<and> stat (fs w) IN_DIR = Inr root \<and> wf_node root"
  from main_loop[of lib w c w'] a obtain w1 where
    l: "loop lib (rglob (fs w) IN_DIR)
          \<lparr>count_total = 0, count_done = 0, count_skipped = 0, count_failed = 0\<rparr> w = (Inr c, w1)"
    by blast
  have u: "\<forall>src \<in> set (rglob (fs w) IN_DIR). \<exists>rel. src = IN_DIR @ rel \<and> rel \<noteq> []"
    using rglob_under by blast
  from loop_total_count[OF l u preserves_refl]
  have "count_total c = int (length (filter (candidate (fs w)) (rglob (fs w) IN_DIR)))" by simp
  with count_rglob[of "fs w" IN_DIR root] a show "count_total c = int (tiff_files root)" by simp
next
  assume a: "path_exists (fs v) src \<and> \<not> candidate (fs v) src"
  then have "is_file_call v src = Inr (is_file (fs v) src)" by (simp add: is_file_call_present)
  with a show "loop_body lib src d v = (Inr d, v)"
    by (auto simp: loop_body_def candidate_def)
next
  assume n: "\<not> candidate (fs v) src"
  show "snd (loop_body lib src d v) = v"
  proof (cases "is_file_call v src")
    case (Inl e)
    then show ?thesis by (simp add: loop_body_def)
  next
    case (Inr f)
    from is_file_call_Inr[OF Inr] n Inr show ?thesis
      by (auto simp: loop_body_def candidate_def)
  qed
next
  fix d'
  assume n: "\<not> candidate (fs v) src" and r: "fst (loop_body lib src d v) = Inr d'"
  show "d' = d"
  proof (cases "is_file_call v src")
    case (Inl e)
    with r show ?thesis by (simp add: loop_body_def)
  next
    case (Inr f)
    from is_file_call_Inr[OF Inr] n Inr r show ?thesis
      by (auto simp: loop_body_def candidate_def)
  qed
qed

theorem total_counts_tiff_files_witness:
  "main example_lib example_world =
     (Returned \<lparr>count_total = 4, count_done = 2, count_skipped = 1, count_failed = 1\<rparr>,
      snd (main example_lib example_world)) \<and>
   stat (fs example_world) IN_DIR = Inr example_patterns \<and>
   wf_node example_patterns \<and>
   tiff_files example_patterns = 4 \<and>
   count_total \<lparr>count_total = 4, count_done = 2, count_skipped = 1, count_failed = 1\<rparr> =
     int (tiff_files example_patterns) \<and>
   path_exists (fs example_world) [''public'', ''patterns'', ''e.tif''] \<and>
   \<not> candidate (fs example_world) [''public'', ''patterns'', ''e.tif''] \<and>
   loop_body example_lib [''public'', ''patterns'', ''e.tif'']
     \<lparr>count_total = 0, count_done = 0, count_skipped = 0, count_failed = 0\<rparr> example_world =
     (Inr \<lparr>count_total = 0, count_done = 0, count_skipped = 0, count_failed = 0\<rparr>, example_world)"
proof -
  have m: "main example_lib example_world =
     (Returned \<lparr>count_total = 4, count_done = 2, count_skipped = 1, count_failed = 1\<rparr>,
      snd (main example_lib example_world))"
    using example_run by (metis prod.collapse)
  have s: "stat (fs example_world) IN_DIR = Inr example_patterns" by code_simp
  have w: "wf_node example_patterns" by code_simp
  have n: "tiff_files example_patterns = 4" by code_simp
  have c: "\<not> candidate (fs example_world) [''public'', ''patterns'', ''e.tif'']" by code_simp
  have x: "path_exists (fs example_world) [''public'', ''patterns'', ''e.tif'']" by code_simp
  note T = total_counts_tiff_files[of example_lib example_world
      "\<lparr>count_total = 4, count_done = 2, count_skipped = 1, count_failed = 1\<rparr>"
      "snd (main example_lib example_world)" example_patterns example_world
      "[''public'', ''patterns'', ''e.tif'']"
      "\<lparr>count_total = 0, count_done = 0, count_skipped = 0, count_failed = 0\<rparr>"]
  from T m s w have t: "count_total \<lparr>count_total = 4, count_done = 2, count_skipped = 1, count_failed = 1\<rparr> =
     int (tiff_files example_patterns)"
    by blast
  from T c x have b: "loop_body example_lib [''public'', ''patterns'', ''e.tif'']
     \<lparr>count_total = 0, count_done = 0, count_skipped = 0, count_failed = 0\<rparr> example_world =
     (Inr \<lparr>count_total = 0, count_done = 0, count_skipped = 0, count_failed = 0\<rparr>, example_world)"
    by blast
  from m s w n t x c b show ?thesis by blast
qed

subsection \<open>C5: an existing destination is skipped\<close>

text \<open>The library calls of one conversion name its own source and its own destination.\<close>

lemma convert_one_calls:
  assumes "convert_one lib src dst w = (r, w')"
  shows "calls w' = calls w @ drop (length (calls w)) (calls w') \<and>
         (\<forall>ev \<in> set (drop (length (calls w)) (calls w')).
            (\<forall>s. ev = CallOpen s \<longrightarrow> s = src) \<and> (\<forall>im d. ev = CallSave im d \<longrightarrow> d = dst))"
  using assms unfolding convert_one_def Let_def
  by (auto split: sum.splits prod.splits if_splits)

lemma convert_one_calls_other:
  assumes "convert_one lib s d v = (r, v')" and "s \<noteq> src" and "d \<noteq> dst"
  shows "calls v' = calls v @ drop (length (calls v)) (calls v') \<and>
         CallOpen src \<notin> set (drop (length (calls v)) (calls v')) \<and>
         (\<forall>im. CallSave im dst \<notin> set (drop (length (calls v)) (calls v')))"
proof (intro conjI allI)
  note C = convert_one_calls[OF assms(1)]
  from C show "calls v' = calls v @ drop (length (calls v)) (calls v')" by (rule conjunct1)
  from C have B: "\<forall>ev \<in> set (drop (length (calls v)) (calls v')).
            (\<forall>t. ev = CallOpen t \<longrightarrow> t = s) \<and> (\<forall>im x. ev = CallSave im x \<longrightarrow> x = d)"
    by (rule conjunct2)
  show "CallOpen src \<notin> set (drop (length (calls v)) (calls v'))"
  proof
    assume "CallOpen src \<in> set (drop (length (calls v)) (calls v'))"
    with B have "src = s" by blast
    with assms(2) show False by simp
  qed
  fix im
  show "CallSave im dst \<notin> set (drop (length (calls v)) (calls v'))"
  proof
    assume "CallSave im dst \<in> set (drop (length (calls v)) (calls v'))"
    with B have "dst = d" by blast
    with assms(3) show False by simp
  qed
qed

lemma loop_body_calls:
  assumes "loop_body lib (IN_DIR @ rel) c v = (Inr c', v')" and "rel \<noteq> []"
    and "candidate (fs v) src" and "dest_of IN_DIR OUT_DIR src = Inr dst"
    and "path_exists (fs v) dst"
  shows "calls v' = calls v @ drop (length (calls v)) (calls v') \<and>
         CallOpen src \<notin> set (drop (length (calls v)) (calls v')) \<and>
         (\<forall>im. CallSave im dst \<notin> set (drop (length (calls v)) (calls v')))"
  using assms(1,2)
proof (cases rule: loop_body_cases)
  case ignored
  then show ?thesis by simp
next
  case (skipped d)
  then show ?thesis by simp
next
  case (converted d)
  from converted(4) assms(5) have ne: "d \<noteq> dst" by auto
  with converted(3) assms(4) have ns: "IN_DIR @ rel \<noteq> src" by auto
  from convert_one_calls_other[OF converted(5) ns ne] show ?thesis .
next
  case (failed d e w1)
  from failed(4) assms(5) have ne: "d \<noteq> dst" by auto
  with failed(3) assms(4) have ns: "IN_DIR @ rel \<noteq> src" by auto
  from convert_one_calls_other[OF failed(5) ns ne] have
    "calls w1 = calls v @ drop (length (calls v)) (calls w1) \<and>
         CallOpen src \<notin> set (drop (length (calls v)) (calls w1)) \<and>
         (\<forall>im. CallSave im dst \<notin> set (drop (length (calls v)) (calls w1)))" .
  moreover from failed(7) have "calls v' = calls w1" by simp
  ultimately show ?thesis by simp
qed

lemma loop_calls:
  assumes "loop lib srcs c v = (Inr c', v')"
    and "\<forall>s \<in> set srcs. \<exists>rel. s = IN_DIR @ rel \<and> rel \<noteq> []"
    and "candidate (fs v) src" and "dest_of IN_DIR OUT_DIR src = Inr dst"
    and "path_exists (fs v) dst"
    and "src = IN_DIR @ rel0"
  shows "calls v' = calls v @ drop (length (calls v)) (calls v') \<and>
         CallOpen src \<notin> set (drop (length (calls v)) (calls v')) \<and>
         (\<forall>im. CallSave im dst \<notin> set (drop (length (calls v)) (calls v')))"
  using assms(1,2,3,5)
proof (induction srcs arbitrary: c v)
  case Nil
  then show ?case by simp
next
  case (Cons s rest)
  from Cons.prems(2) obtain rel where rel: "s = IN_DIR @ rel" "rel \<noteq> []" by auto
  from Cons.prems(1) obtain c1 v1 where
    b: "loop_body lib (IN_DIR @ rel) c v = (Inr c1, v1)" and l: "loop lib rest c1 v1 = (Inr c', v')"
    unfolding rel by (auto split: prod.splits sum.splits)
  from loop_body_preserves[OF b rel(2)] have p: "preserves (fs v) (fs v1)" .
  from Cons.prems(3) preserves_candidate[OF p, of rel0] assms(6)
  have c1: "candidate (fs v1) src" by simp
  from preserves_exists[OF p Cons.prems(4)] have e1: "path_exists (fs v1) dst" .
  from Cons.prems(2) have r: "\<forall>s \<in> set rest. \<exists>rel. s = IN_DIR @ rel \<and> rel \<noteq> []" by simp
  note step = loop_body_calls[OF b rel(2) Cons.prems(3) assms(4) Cons.prems(4)]
  note ih = Cons.IH[OF l r c1 e1]
  let ?n1 = "drop (length (calls v)) (calls v1)"
  let ?n2 = "drop (length (calls v1)) (calls v')"
  from step have s1: "calls v1 = calls v @ ?n1" by (rule conjunct1)
  from ih have s2: "calls v' = calls v1 @ ?n2" by (rule conjunct1)
  from s1 s2 have eq: "calls v' = calls v @ (?n1 @ ?n2)" by (metis append.assoc)
  have d: "drop (length (calls v)) (calls v') = ?n1 @ ?n2"
    by (subst eq) simp
  from step have a1: "CallOpen src \<notin> set ?n1" and b1: "\<forall>im. CallSave im dst \<notin> set ?n1"
    by blast+
  from ih have a2: "CallOpen src \<notin> set ?n2" and b2: "\<forall>im. CallSave im dst \<notin> set ?n2"
    by blast+
  show ?case
  proof (intro conjI allI)
    show "calls v' = calls v @ drop (length (calls v)) (calls v')"
      unfolding d by (rule eq)
    show "CallOpen src \<notin> set (drop (length (calls v)) (calls v'))"
      unfolding d using a1 a2 by simp
    fix im
    show "CallSave im dst \<notin> set (drop (length (calls v)) (calls v'))"
      unfolding d using b1 b2 by simp
  qed
qed

text \<open>
  C5. With skip-existing enabled (as the script sets it), a candidate whose destination
  exists as a regular file when the loop reaches it adds one to the total and one to
  skipped, and the loop goes on with the remaining entries in the same world: no
  library call is made, so the source is not opened and nothing is decoded or encoded,
  and the tree is the same. Over a whole run: a destination that is a regular file
  before the run has the same content when \<open>main\<close> returns, and the run has neither
  opened its source nor saved anything at that destination.
\<close>

theorem existing_destination_is_skipped:
  "(candidate (fs w) src \<and> dest_of IN_DIR OUT_DIR src = Inr dst \<and> is_file (fs w) dst \<longrightarrow>
      loop lib (src # rest) c w =
        loop lib rest
          (c\<lparr>count_total := count_total c + 1, count_skipped := count_skipped c + 1\<rparr>) w) \<and>
   (main lib w = (Returned c', w') \<and> src \<in> set (rglob (fs w) IN_DIR) \<and>
    candidate (fs w) src \<and> dest_of IN_DIR OUT_DIR src = Inr dst \<and>
    stat (fs w) dst = Inr (File b) \<longrightarrow>
      stat (fs w') dst = Inr (File b) \<and>
      CallOpen src \<notin> set (drop (length (calls w)) (calls w')) \<and>
      (\<forall>im. CallSave im dst \<notin> set (drop (length (calls w)) (calls w'))))"
proof (intro conjI impI)
  assume a: "candidate (fs w) src \<and> dest_of IN_DIR OUT_DIR src = Inr dst \<and> is_file (fs w) dst"
  then have f: "\<not> (\<not> True)"
    and s: "\<not> (lower (suffix src) \<notin> {''.tif'', ''.tiff''})"
    by (simp_all add: candidate_def)
  from a have i: "is_file (fs w) src" by (simp add: candidate_def)
  from is_file_path_exists[OF i] i have fc: "is_file_call w src = Inr True"
    by (simp add: is_file_call_present)
  from a have "path_exists (fs w) dst" by (simp add: is_file_path_exists)
  then have xc: "exists_call w dst = Inr True" by (rule exists_call_present)
  from a have d: "dest_of IN_DIR OUT_DIR src = Inr dst" by simp
  have "loop_body lib src c w =
    (Inr (c\<lparr>count_total := count_total c + 1, count_skipped := count_skipped c + 1\<rparr>), w)"
    unfolding loop_body_def fc sum.case Let_def if_not_P[OF f] if_not_P[OF s] d
    by (simp add: SKIP_EXISTING_def xc)
  then show "loop lib (src # rest) c w =
        loop lib rest
          (c\<lparr>count_total := count_total c + 1, count_skipped := count_skipped c + 1\<rparr>) w"
    by simp
next
  assume a: "main lib w = (Returned c', w') \<and> src \<in> set (rglob (fs w) IN_DIR) \<and>
    candidate (fs w) src \<and> dest_of IN_DIR OUT_DIR src = Inr dst \<and>
    stat (fs w) dst = Inr (File b)"
  from main_loop[of lib w c' w'] a obtain w1 where
    l: "loop lib (rglob (fs w) IN_DIR)
          \<lparr>count_total = 0, count_done = 0, count_skipped = 0, count_failed = 0\<rparr> w = (Inr c', w1)"
    and w': "w' = w1\<lparr>stdout := stdout w1 @ report_lines c' w1\<rparr>"
    by blast
  have u: "\<forall>s \<in> set (rglob (fs w) IN_DIR). \<exists>rel. s = IN_DIR @ rel \<and> rel \<noteq> []"
    using rglob_under by blast
  with a obtain rel0 where r0: "src = IN_DIR @ rel0" by blast
  from loop_preserves[OF l u] have p: "preserves (fs w) (fs w1)" .
  with a have "stat (fs w1) dst = Inr (File b)" unfolding preserves_def by blast
  with w' show "stat (fs w') dst = Inr (File b)" by simp
  from a have e: "path_exists (fs w) dst" by (simp add: path_exists_def)
  from a have cd: "candidate (fs w) src" "dest_of IN_DIR OUT_DIR src = Inr dst" by simp_all
  note C = loop_calls[OF l u cd e r0]
  from C w' show "CallOpen src \<notin> set (drop (length (calls w)) (calls w'))" by simp
  from C w' show "\<forall>im. CallSave im dst \<notin> set (drop (length (calls w)) (calls w'))" by simp
qed

theorem existing_destination_is_skipped_witness:
  "candidate (fs sentinel_world) [''public'', ''patterns'', ''a.tif''] \<and>
   dest_of IN_DIR OUT_DIR [''public'', ''patterns'', ''a.tif''] =
     Inr [''public'', ''patterns_png'', ''a.png''] \<and>
   is_file (fs sentinel_world) [''public'', ''patterns_png'', ''a.png''] \<and>
   stat (fs sentinel_world) [''public'', ''patterns_png'', ''a.png''] = Inr (File ''sentinel'') \<and>
   [''public'', ''patterns'', ''a.tif''] \<in> set (rglob (fs sentinel_world) IN_DIR) \<and>
   loop example_lib [[''public'', ''patterns'', ''a.tif'']]
     \<lparr>count_total = 0, count_done = 0, count_skipped = 0, count_failed = 0\<rparr> sentinel_world =
     (Inr \<lparr>count_total = 1, count_done = 0, count_skipped = 1, count_failed = 0\<rparr>, sentinel_world) \<and>
   fst (main example_lib sentinel_world) =
     Returned \<lparr>count_total = 4, count_done = 1, count_skipped = 2, count_failed = 1\<rparr> \<and>
   stat (fs (snd (main example_lib sentinel_world))) [''public'', ''patterns_png'', ''a.png''] =
     Inr (File ''sentinel'') \<and>
   CallOpen [''public'', ''patterns'', ''a.tif''] \<notin> set (calls (snd (main example_lib sentinel_world)))"
proof -
  let ?src = "[''public'', ''patterns'', ''a.tif'']"
  let ?dst = "[''public'', ''patterns_png'', ''a.png'']"
  let ?z = "\<lparr>count_total = 0, count_done = 0, count_skipped = 0, count_failed = 0\<rparr>"
  let ?c = "\<lparr>count_total = 4, count_done = 1, count_skipped = 2, count_failed = 1\<rparr>"
  have a: "candidate (fs sentinel_world) ?src" by code_simp
  have b: "dest_of IN_DIR OUT_DIR ?src = Inr ?dst" by code_simp
  have c: "is_file (fs sentinel_world) ?dst" by code_simp
  have d: "stat (fs sentinel_world) ?dst = Inr (File ''sentinel'')" by code_simp
  have e: "?src \<in> set (rglob (fs sentinel_world) IN_DIR)" by code_simp
  have f: "fst (main example_lib sentinel_world) = Returned ?c" by code_simp
  then have m: "main example_lib sentinel_world = (Returned ?c, snd (main example_lib sentinel_world))"
    by (metis prod.collapse)
  have n: "calls sentinel_world = []" by (simp add: sentinel_world_def)
  note T = existing_destination_is_skipped[of sentinel_world ?src ?dst example_lib "[]" ?z
             ?c "snd (main example_lib sentinel_world)" "''sentinel''"]
  from T a b c have "loop example_lib (?src # []) ?z sentinel_world =
        loop example_lib []
          (?z\<lparr>count_total := count_total ?z + 1, count_skipped := count_skipped ?z + 1\<rparr>) sentinel_world"
    by blast
  then have l: "loop example_lib [?src] ?z sentinel_world =
     (Inr \<lparr>count_total = 1, count_done = 0, count_skipped = 1, count_failed = 0\<rparr>, sentinel_world)"
    by simp
  from T m e a b d have
    r1: "stat (fs (snd (main example_lib sentinel_world))) ?dst = Inr (File ''sentinel'')"
    and r2: "CallOpen ?src \<notin> set (drop (length (calls sentinel_world))
                                    (calls (snd (main example_lib sentinel_world))))"
    by blast+
  from r2 n have r3: "CallOpen ?src \<notin> set (calls (snd (main example_lib sentinel_world)))"
    by simp
  from a b c d e l f r1 r3 show ?thesis by blast
qed

subsection \<open>C9: a second run over the same input\<close>

lemma loop_body_failed_mono:
  assumes "loop_body lib (IN_DIR @ rel) c v = (Inr c1, v1)" and "rel \<noteq> []"
  shows "count_failed c \<le> count_failed c1"
  using assms by (cases rule: loop_body_cases) auto

lemma loop_failed_mono:
  assumes "loop lib srcs c v = (Inr c', v')"
    and "\<forall>s \<in> set srcs. \<exists>rel. s = IN_DIR @ rel \<and> rel \<noteq> []"
  shows "count_failed c \<le> count_failed c'"
  using assms
proof (induction srcs arbitrary: c v)
  case Nil
  then show ?case by simp
next
  case (Cons s rest)
  from Cons.prems(2) obtain rel where rel: "s = IN_DIR @ rel" "rel \<noteq> []" by auto
  from Cons.prems(1) obtain c1 v1 where
    b: "loop_body lib (IN_DIR @ rel) c v = (Inr c1, v1)" and l: "loop lib rest c1 v1 = (Inr c', v')"
    unfolding rel by (auto split: prod.splits sum.splits)
  from Cons.prems(2) have r: "\<forall>s \<in> set rest. \<exists>rel. s = IN_DIR @ rel \<and> rel \<noteq> []" by simp
  from loop_body_failed_mono[OF b rel(2)] Cons.IH[OF l r] show ?case by simp
qed

text \<open>After a pass that is not a failure, the destination of a candidate exists.\<close>
lemma loop_body_dest_exists:
  assumes "loop_body lib (IN_DIR @ rel) c v = (Inr c1, v1)" and "rel \<noteq> []"
    and "count_failed c1 = count_failed c" and "candidate (fs v) (IN_DIR @ rel)"
  shows "\<exists>dst. dest_of IN_DIR OUT_DIR (IN_DIR @ rel) = Inr dst \<and> path_exists (fs v1) dst"
  using assms(1,2)
proof (cases rule: loop_body_cases)
  case ignored
  with assms(4) show ?thesis by (simp add: candidate_def)
next
  case (skipped dst)
  then show ?thesis by simp
next
  case (converted dst)
  from convert_one_ok_fs[OF converted(5)] obtain t1 b where
    "write_file t1 dst b = Inr (fs v1)" by blast
  from write_file_stat[OF this] have "path_exists (fs v1) dst" by (simp add: path_exists_def)
  with converted(3) show ?thesis by simp
next
  case (failed dst e w1)
  with assms(3) show ?thesis by simp
qed

lemma loop_dests_exist:
  assumes "loop lib srcs c v = (Inr c', v')"
    and "\<forall>s \<in> set srcs. \<exists>rel. s = IN_DIR @ rel \<and> rel \<noteq> []"
    and "count_failed c' = count_failed c"
    and "preserves t (fs v)"
  shows "\<forall>s \<in> set srcs. candidate t s \<longrightarrow>
           (\<exists>dst. dest_of IN_DIR OUT_DIR s = Inr dst \<and> path_exists (fs v') dst)"
  using assms
proof (induction srcs arbitrary: c v)
  case Nil
  then show ?case by simp
next
  case (Cons s rest)
  from Cons.prems(2) obtain rel where rel: "s = IN_DIR @ rel" "rel \<noteq> []" by auto
  from Cons.prems(1) obtain c1 v1 where
    b: "loop_body lib (IN_DIR @ rel) c v = (Inr c1, v1)" and l: "loop lib rest c1 v1 = (Inr c', v')"
    unfolding rel by (auto split: prod.splits sum.splits)
  from Cons.prems(2) have r: "\<forall>s \<in> set rest. \<exists>rel. s = IN_DIR @ rel \<and> rel \<noteq> []" by simp
  from loop_body_failed_mono[OF b rel(2)] loop_failed_mono[OF l r] Cons.prems(3)
  have f1: "count_failed c1 = count_failed c" and f2: "count_failed c' = count_failed c1"
    by simp_all
  from loop_body_preserves[OF b rel(2)] have p01: "preserves (fs v) (fs v1)" .
  with Cons.prems(4) have p1: "preserves t (fs v1)" by (blast intro: preserves_trans)
  from loop_preserves[OF l r] have p12: "preserves (fs v1) (fs v')" .
  note ih = Cons.IH[OF l r f2 p1]
  have hd: "candidate t s \<longrightarrow>
           (\<exists>dst. dest_of IN_DIR OUT_DIR s = Inr dst \<and> path_exists (fs v') dst)"
  proof
    assume "candidate t s"
    with preserves_candidate[OF Cons.prems(4), of rel] rel
    have "candidate (fs v) (IN_DIR @ rel)" by simp
    from loop_body_dest_exists[OF b rel(2) f1 this] obtain dst where
      d: "dest_of IN_DIR OUT_DIR (IN_DIR @ rel) = Inr dst" "path_exists (fs v1) dst" by blast
    from preserves_exists[OF p12 d(2)] d(1) rel
    show "\<exists>dst. dest_of IN_DIR OUT_DIR s = Inr dst \<and> path_exists (fs v') dst" by simp
  qed
  from hd ih show ?case by simp
qed

text \<open>
  What \<open>is_file\<close> answered in a pass that was not cut short, it answers again in any
  world whose input tree and operating-system errors are the same.
\<close>

lemma is_file_call_cong:
  assumes s: "stat (fs a) p = stat (fs b) p" and e: "os_error a = os_error b"
  shows "is_file_call a p = is_file_call b p"
  unfolding is_file_call_def stat_call_def s e ..

lemma loop_is_file_calls:
  assumes "loop lib srcs c v = (Inr c', v')"
    and "\<forall>s \<in> set srcs. \<exists>rel. s = IN_DIR @ rel \<and> rel \<noteq> []"
    and "preserves t (fs v)"
    and "preserves t (fs x)" and "os_error x = os_error v"
  shows "\<forall>s \<in> set srcs. \<exists>b. is_file_call x s = Inr b"
  using assms(1,2,3,5)
proof (induction srcs arbitrary: c v)
  case Nil
  then show ?case by simp
next
  case (Cons s rest)
  from Cons.prems(2) obtain rel where rel: "s = IN_DIR @ rel" "rel \<noteq> []" by auto
  from Cons.prems(1) obtain c1 v1 where
    b: "loop_body lib (IN_DIR @ rel) c v = (Inr c1, v1)" and l: "loop lib rest c1 v1 = (Inr c', v')"
    unfolding rel by (auto split: prod.splits sum.splits)
  from Cons.prems(2) have r: "\<forall>s \<in> set rest. \<exists>rel. s = IN_DIR @ rel \<and> rel \<noteq> []" by simp
  from b obtain f where f: "is_file_call v (IN_DIR @ rel) = Inr f"
    by (auto simp: loop_body_def split: sum.splits)
  from Cons.prems(3) assms(4) have "stat (fs x) (IN_DIR @ rel) = stat (fs v) (IN_DIR @ rel)"
    by (simp add: preserves_def)
  from is_file_call_cong[OF this Cons.prems(4)] f rel
  have hd: "\<exists>b. is_file_call x s = Inr b" by simp
  from loop_body_preserves[OF b rel(2)] Cons.prems(3)
  have p1: "preserves t (fs v1)" by (blast intro: preserves_trans)
  from loop_body_env[OF b rel(2)] Cons.prems(4) have e1: "os_error x = os_error v1" by simp
  from Cons.IH[OF l r p1 e1] hd show ?case by simp
qed

lemma loop_all_skipped:
  assumes "\<forall>s \<in> set srcs. \<exists>rel. s = IN_DIR @ rel \<and> rel \<noteq> []"
    and "\<forall>s \<in> set srcs. candidate (fs v) s \<longrightarrow>
           (\<exists>dst. dest_of IN_DIR OUT_DIR s = Inr dst \<and> path_exists (fs v) dst)"
    and "\<forall>s \<in> set srcs. \<exists>b. is_file_call v s = Inr b"
  shows "loop lib srcs c v =
           (Inr (c\<lparr>count_total := count_total c + int (length (filter (candidate (fs v)) srcs)),
                    count_skipped := count_skipped c + int (length (filter (candidate (fs v)) srcs))\<rparr>),
            v)"
  using assms
proof (induction srcs arbitrary: c)
  case Nil
  then show ?case by simp
next
  case (Cons s rest)
  from Cons.prems(1) have r: "\<forall>s \<in> set rest. \<exists>rel. s = IN_DIR @ rel \<and> rel \<noteq> []" by simp
  from Cons.prems(2) have e: "\<forall>s \<in> set rest. candidate (fs v) s \<longrightarrow>
           (\<exists>dst. dest_of IN_DIR OUT_DIR s = Inr dst \<and> path_exists (fs v) dst)" by simp
  from Cons.prems(3) have i: "\<forall>s \<in> set rest. \<exists>b. is_file_call v s = Inr b" by simp
  note ih = Cons.IH[OF r e i]
  from Cons.prems(3) obtain b where b: "is_file_call v s = Inr b" by auto
  from is_file_call_Inr[OF b] have bb: "b = is_file (fs v) s" .
  show ?case
  proof (cases "candidate (fs v) s")
    case False
    with b bb have "loop_body lib s c v = (Inr c, v)"
      by (auto simp: loop_body_def candidate_def)
    with False ih[of c] show ?thesis by simp
  next
    case True
    with Cons.prems(2) obtain dst where
      d: "dest_of IN_DIR OUT_DIR s = Inr dst" "path_exists (fs v) dst" by auto
    from True bb have f: "\<not> (\<not> b)"
      and x: "\<not> (lower (suffix s) \<notin> {''.tif'', ''.tiff''})"
      by (simp_all add: candidate_def)
    from exists_call_present[OF d(2)] have xc: "exists_call v dst = Inr True" .
    have "loop_body lib s c v =
      (Inr (c\<lparr>count_total := count_total c + 1, count_skipped := count_skipped c + 1\<rparr>), v)"
      unfolding loop_body_def b sum.case Let_def if_not_P[OF f] if_not_P[OF x] d(1)
      by (simp add: SKIP_EXISTING_def xc)
    with True ih[of "c\<lparr>count_total := count_total c + 1, count_skipped := count_skipped c + 1\<rparr>"]
    show ?thesis by (simp add: add.assoc)
  qed
qed

text \<open>
  The report of the second run is made of the characters of the report of the first:
  the same two directories, the same total, and \<open>0\<close>, which the first run printed as its
  number of failures.
\<close>

lemma report_lines_second:
  assumes "list_all (list_all P) (report_lines c1 v1)" and "cwd w1 = cwd v1"
    and "count_failed c1 = 0" and "count_done c1 + count_skipped c1 = count_total c1"
  shows "list_all (list_all P)
           (report_lines \<lparr>count_total = count_total c1, count_done = 0,
                           count_skipped = count_done c1 + count_skipped c1, count_failed = 0\<rparr> w1)"
proof -
  from assms(2) have s: "\<And>p. str_resolved w1 p = str_resolved v1 p"
    by (simp add: str_resolved_def)
  from assms(1,3,4) show ?thesis
    unfolding report_lines_def by (simp add: s)
qed

text \<open>
  C9, as amended. When a run of \<open>main\<close> returns with no failure, a second run from the
  world it leaves returns with converted = 0, failed = 0 and skipped equal to the
  converted plus the skipped of the first run (the whole total), and it leaves the tree
  as it found it. So skipped equals the converted count of the first run exactly when
  the first run skipped nothing. The counterexample has both ways in which the claim as
  written fails: a first run with a failure (the corrupt file fails again in the
  second run) and a first run that itself skips (two candidates with one destination).
\<close>

theorem second_run_skips_everything:
  assumes "main lib w = (Returned c1, w1)" and "count_failed c1 = 0"
  shows "\<exists>w2. main lib w1 =
            (Returned \<lparr>count_total = count_total c1, count_done = 0,
                       count_skipped = count_done c1 + count_skipped c1, count_failed = 0\<rparr>, w2) \<and>
          fs w2 = fs w1"
proof -
  let ?z = "\<lparr>count_total = 0, count_done = 0, count_skipped = 0, count_failed = 0\<rparr>"
  let ?srcs = "rglob (fs w) IN_DIR"
  from main_loop[OF assms(1)] obtain v1 where
    l: "loop lib ?srcs ?z w = (Inr c1, v1)"
    and w1: "w1 = v1\<lparr>stdout := stdout v1 @ report_lines c1 v1\<rparr>"
    and en: "list_all (list_all (encodable v1)) (report_lines c1 v1)"
    and ex: "path_exists (fs w) IN_DIR"
    by blast
  have u: "\<forall>s \<in> set ?srcs. \<exists>rel. s = IN_DIR @ rel \<and> rel \<noteq> []"
    using rglob_under by blast
  from loop_preserves[OF l u] w1 have p: "preserves (fs w) (fs w1)" by simp
  from preserves_rglob[OF p] have g: "rglob (fs w1) IN_DIR = ?srcs" .
  from preserves_exists[OF p ex] have ex1: "path_exists (fs w1) IN_DIR" .
  from loop_env[OF l u] w1 have env: "os_error w1 = os_error w" "encodable w1 = encodable v1"
    "cwd w1 = cwd v1" by simp_all
  have same: "\<forall>s \<in> set ?srcs. candidate (fs w1) s = candidate (fs w) s"
    using u preserves_candidate[OF p] by auto
  then have fl: "filter (candidate (fs w1)) ?srcs = filter (candidate (fs w)) ?srcs"
    by (simp cong: filter_cong)
  from assms(2) have "count_failed c1 = count_failed ?z" by simp
  from loop_dests_exist[OF l u this preserves_refl] w1
  have "\<forall>s \<in> set ?srcs. candidate (fs w) s \<longrightarrow>
           (\<exists>dst. dest_of IN_DIR OUT_DIR s = Inr dst \<and> path_exists (fs w1) dst)"
    by simp
  with same have d: "\<forall>s \<in> set ?srcs. candidate (fs w1) s \<longrightarrow>
           (\<exists>dst. dest_of IN_DIR OUT_DIR s = Inr dst \<and> path_exists (fs w1) dst)"
    by simp
  from loop_is_file_calls[OF l u preserves_refl p env(1)]
  have i: "\<forall>s \<in> set ?srcs. \<exists>b. is_file_call w1 s = Inr b" .
  from loop_total_count[OF l u preserves_refl]
  have n: "count_total c1 = int (length (filter (candidate (fs w)) ?srcs))" by simp
  from main_tally[OF assms(1)] assms(2)
  have t: "count_done c1 + count_skipped c1 = count_total c1" by simp
  let ?c2 = "\<lparr>count_total = count_total c1, count_done = 0,
               count_skipped = count_done c1 + count_skipped c1, count_failed = 0\<rparr>"
  from loop_all_skipped[OF u d i, of lib ?z] fl n t
  have l2: "loop lib ?srcs ?z w1 = (Inr ?c2, w1)"
    by simp
  from en env(2) have "list_all (list_all (encodable w1)) (report_lines c1 v1)" by simp
  from report_lines_second[OF this env(3) assms(2) t]
  have "list_all (list_all (encodable w1)) (report_lines ?c2 w1)" .
  from prints_encodable[OF this]
  have r: "report ?c2 w1 = (Inr (), w1\<lparr>stdout := stdout w1 @ report_lines ?c2 w1\<rparr>)"
    by (simp add: report_def)
  from exists_call_present[OF ex1] have x: "exists_call w1 IN_DIR = Inr True" .
  have "main lib w1 = (Returned ?c2, w1\<lparr>stdout := stdout w1 @ report_lines ?c2 w1\<rparr>)"
    by (simp add: main_def x g l2 r)
  then show ?thesis by simp
qed

theorem second_run_skips_everything_witness:
  "main example_lib collision_world =
     (Returned \<lparr>count_total = 2, count_done = 1, count_skipped = 1, count_failed = 0\<rparr>,
      snd (main example_lib collision_world)) \<and>
   count_failed \<lparr>count_total = 2, count_done = 1, count_skipped = 1, count_failed = 0\<rparr> = 0 \<and>
   fst (main example_lib (snd (main example_lib collision_world))) =
     Returned \<lparr>count_total = 2, count_done = 0, count_skipped = 2, count_failed = 0\<rparr> \<and>
   fs (snd (main example_lib (snd (main example_lib collision_world)))) =
     fs (snd (main example_lib collision_world))"
proof -
  let ?c1 = "\<lparr>count_total = 2, count_done = 1, count_skipped = 1, count_failed = 0\<rparr>"
  let ?w1 = "snd (main example_lib collision_world)"
  have "fst (main example_lib collision_world) = Returned ?c1" by code_simp
  then have m: "main example_lib collision_world = (Returned ?c1, ?w1)"
    by (metis prod.collapse)
  have f: "count_failed ?c1 = 0" by simp
  from second_run_skips_everything[OF m f] obtain w2 where
    r: "main example_lib ?w1 =
          (Returned \<lparr>count_total = count_total ?c1, count_done = 0,
                     count_skipped = count_done ?c1 + count_skipped ?c1, count_failed = 0\<rparr>, w2)"
    and t: "fs w2 = fs ?w1"
    by blast
  from r have r1: "fst (main example_lib ?w1) =
     Returned \<lparr>count_total = 2, count_done = 0, count_skipped = 2, count_failed = 0\<rparr>"
    by simp
  from r t have r2: "fs (snd (main example_lib ?w1)) = fs ?w1" by simp
  from m f r1 r2 show ?thesis by blast
qed

theorem second_run_counterexample:
  "fst (main example_lib example_world) =
     Returned \<lparr>count_total = 4, count_done = 2, count_skipped = 1, count_failed = 1\<rparr> \<and>
   fst (main example_lib (snd (main example_lib example_world))) =
     Returned \<lparr>count_total = 4, count_done = 0, count_skipped = 3, count_failed = 1\<rparr> \<and>
   count_skipped \<lparr>count_total = 4, count_done = 0, count_skipped = 3, count_failed = 1\<rparr> \<noteq>
     count_done \<lparr>count_total = 4, count_done = 2, count_skipped = 1, count_failed = 1\<rparr> \<and>
   count_failed \<lparr>count_total = 4, count_done = 0, count_skipped = 3, count_failed = 1\<rparr> \<noteq> 0 \<and>
   fst (main example_lib collision_world) =
     Returned \<lparr>count_total = 2, count_done = 1, count_skipped = 1, count_failed = 0\<rparr> \<and>
   fst (main example_lib (snd (main example_lib collision_world))) =
     Returned \<lparr>count_total = 2, count_done = 0, count_skipped = 2, count_failed = 0\<rparr> \<and>
   count_skipped \<lparr>count_total = 2, count_done = 0, count_skipped = 2, count_failed = 0\<rparr> \<noteq>
     count_done \<lparr>count_total = 2, count_done = 1, count_skipped = 1, count_failed = 0\<rparr>"
  by code_simp

subsection \<open>C1: the fatal error\<close>

lemma rglob_file: "stat t p = Inr (File b) \<Longrightarrow> rglob t p = []"
  by (simp add: rglob_def)

lemma exists_call_False:
  "exists_call w p = Inr False \<longleftrightarrow>
     \<not> path_exists (fs w) p \<and> (os_error w p = None \<or> (\<exists>k. os_error w p = Some k \<and> ignore_error k))"
  by (auto simp: exists_call_def stat_call_def path_exists_def split: sum.splits option.splits)

lemma main_root_missing:
  assumes "\<not> path_exists (fs w) IN_DIR"
  shows "exit_status (fst (main lib w)) = 1"
proof (cases "exists_call w IN_DIR")
  case (Inl e)
  then show ?thesis by (simp add: main_def)
next
  case (Inr x)
  from exists_call_Inr[OF Inr] assms have "\<not> x" by simp
  with Inr show ?thesis by (simp add: main_def)
qed

text \<open>
  C1, as amended. \<open>main\<close> raises \<open>SystemExit\<close> exactly when the test of line 33 answers
  that the input root does not exist: the tree holds nothing at that path, and the
  operating system reports nothing but its absence. The message then names the resolved
  path of the input root, and the world is the one \<open>main\<close> started in: no entry was
  processed, no library call was made, nothing was printed to standard output, and the
  tree, the output root included, is untouched. A run whose input root is missing never
  ends with status 0; and where no query of the operating system fails and every
  character can be written to standard output, the status is not 0 exactly when the
  input root is missing. The test on line 33 is \<open>exists()\<close>: an input root that exists as
  a regular file is not fatal; the walk then yields nothing, and \<open>main\<close> returns with
  zero for every counter after printing the report, whenever the lines of that report
  can be written. The counterexample is such a run.
\<close>

theorem main_fatal_iff_root_missing:
  "((\<exists>m. fst (main lib w) = SystemExit m) \<longleftrightarrow> exists_call w IN_DIR = Inr False) \<and>
   (exists_call w IN_DIR = Inr False \<longleftrightarrow>
      \<not> path_exists (fs w) IN_DIR \<and> (os_error w IN_DIR = None \<or> (\<exists>k. os_error w IN_DIR = Some k \<and> ignore_error k))) \<and>
   (exists_call w IN_DIR = Inr False \<longrightarrow>
      main lib w =
        (SystemExit (''[ERROR] Input dir not found: '' @ str_resolved w IN_DIR), w)) \<and>
   (\<not> path_exists (fs w) IN_DIR \<longrightarrow> exit_status (fst (main lib w)) \<noteq> 0) \<and>
   ((\<forall>p. os_error w p = None) \<and> (\<forall>ch. encodable w ch) \<longrightarrow>
      (exit_status (fst (main lib w)) \<noteq> 0 \<longleftrightarrow> \<not> path_exists (fs w) IN_DIR)) \<and>
   (stat (fs w) IN_DIR = Inr (File b) \<and>
    list_all (list_all (encodable w))
      (report_lines \<lparr>count_total = 0, count_done = 0, count_skipped = 0, count_failed = 0\<rparr> w) \<longrightarrow>
      main lib w =
        (Returned \<lparr>count_total = 0, count_done = 0, count_skipped = 0, count_failed = 0\<rparr>,
         w\<lparr>stdout := stdout w @
              report_lines \<lparr>count_total = 0, count_done = 0, count_skipped = 0, count_failed = 0\<rparr> w\<rparr>))"
proof (intro conjI impI)
  show "(\<exists>m. fst (main lib w) = SystemExit m) \<longleftrightarrow> exists_call w IN_DIR = Inr False"
  proof (cases "exists_call w IN_DIR")
    case (Inl e)
    then show ?thesis by (simp add: main_def)
  next
    case (Inr x)
    then show ?thesis
      by (cases x) (auto simp: main_def split: prod.splits sum.splits)
  qed
next
  show "exists_call w IN_DIR = Inr False \<longleftrightarrow>
      \<not> path_exists (fs w) IN_DIR \<and> (os_error w IN_DIR = None \<or> (\<exists>k. os_error w IN_DIR = Some k \<and> ignore_error k))"
    by (rule exists_call_False)
next
  assume "exists_call w IN_DIR = Inr False"
  then show "main lib w =
        (SystemExit (''[ERROR] Input dir not found: '' @ str_resolved w IN_DIR), w)"
    by (simp add: main_def)
next
  assume "\<not> path_exists (fs w) IN_DIR"
  from main_root_missing[OF this, of lib] show "exit_status (fst (main lib w)) \<noteq> 0" by simp
next
  assume env: "(\<forall>p. os_error w p = None) \<and> (\<forall>ch. encodable w ch)"
  show "exit_status (fst (main lib w)) \<noteq> 0 \<longleftrightarrow> \<not> path_exists (fs w) IN_DIR"
  proof (cases "path_exists (fs w) IN_DIR")
    case True
    from env have e1: "\<forall>p. os_error w p = None" and e2: "\<forall>ch. encodable w ch" by simp_all
    from main_returns_clean[OF True e1 e2, of lib] obtain c w' where
      "main lib w = (Returned c, w')" by blast
    with True show ?thesis by simp
  next
    case False
    from main_root_missing[OF False, of lib] False show ?thesis by simp
  qed
next
  let ?z = "\<lparr>count_total = 0, count_done = 0, count_skipped = 0, count_failed = 0\<rparr>"
  assume a: "stat (fs w) IN_DIR = Inr (File b) \<and> list_all (list_all (encodable w)) (report_lines ?z w)"
  then have "path_exists (fs w) IN_DIR" by (simp add: path_exists_def)
  from exists_call_present[OF this] have x: "exists_call w IN_DIR = Inr True" .
  from a have g: "rglob (fs w) IN_DIR = []" by (simp add: rglob_file)
  from a have "list_all (list_all (encodable w)) (report_lines ?z w)" by simp
  from prints_encodable[OF this]
  have r: "report ?z w = (Inr (), w\<lparr>stdout := stdout w @ report_lines ?z w\<rparr>)"
    by (simp add: report_def)
  show "main lib w = (Returned ?z, w\<lparr>stdout := stdout w @ report_lines ?z w\<rparr>)"
    by (simp add: main_def x g r)
qed

theorem main_fatal_iff_root_missing_witness:
  "\<not> path_exists (fs missing_world) IN_DIR \<and>
   os_error missing_world IN_DIR = None \<and>
   exists_call missing_world IN_DIR = Inr False \<and>
   main example_lib missing_world =
     (SystemExit ''[ERROR] Input dir not found: /home/u/public/patterns'', missing_world) \<and>
   exit_status (fst (main example_lib missing_world)) \<noteq> 0 \<and>
   (\<forall>p. os_error example_world p = None) \<and> (\<forall>ch. encodable example_world ch) \<and>
   path_exists (fs example_world) IN_DIR \<and>
   exit_status (fst (main example_lib example_world)) = 0 \<and>
   stat (fs file_root_world) IN_DIR = Inr (File ''not a directory'') \<and>
   list_all (list_all (encodable file_root_world))
     (report_lines \<lparr>count_total = 0, count_done = 0, count_skipped = 0, count_failed = 0\<rparr>
        file_root_world) \<and>
   fst (main example_lib file_root_world) =
     Returned \<lparr>count_total = 0, count_done = 0, count_skipped = 0, count_failed = 0\<rparr> \<and>
   fs (snd (main example_lib file_root_world)) = fs file_root_world"
proof -
  let ?z = "\<lparr>count_total = 0, count_done = 0, count_skipped = 0, count_failed = 0\<rparr>"
  have a: "\<not> path_exists (fs missing_world) IN_DIR" by code_simp
  have o: "os_error missing_world IN_DIR = None"
    by (simp add: missing_world_def)
  have r: "str_resolved missing_world IN_DIR = ''/home/u/public/patterns''" by code_simp
  have b: "path_exists (fs example_world) IN_DIR" by code_simp
  have e1: "\<forall>p. os_error example_world p = None" by (simp add: example_world_def)
  have e2: "\<forall>ch. encodable example_world ch" by (simp add: example_world_def)
  have s: "stat (fs file_root_world) IN_DIR = Inr (File ''not a directory'')" by code_simp
  have l: "list_all (list_all (encodable file_root_world)) (report_lines ?z file_root_world)"
    by (simp add: file_root_world_def list_all_iff)
  note T1 = main_fatal_iff_root_missing[of example_lib missing_world]
  note T2 = main_fatal_iff_root_missing[of example_lib example_world]
  note T3 = main_fatal_iff_root_missing[of example_lib file_root_world "''not a directory''"]
  from T1 a o have x: "exists_call missing_world IN_DIR = Inr False" by blast
  from T1 x r have m: "main example_lib missing_world =
     (SystemExit ''[ERROR] Input dir not found: /home/u/public/patterns'', missing_world)"
    by simp
  from T1 a have x1: "exit_status (fst (main example_lib missing_world)) \<noteq> 0" by blast
  from T2 b e1 e2 have x2: "exit_status (fst (main example_lib example_world)) = 0" by blast
  from T3 s l have f: "main example_lib file_root_world =
        (Returned ?z, file_root_world\<lparr>stdout := stdout file_root_world @ report_lines ?z file_root_world\<rparr>)"
    by blast
  from f have f1: "fst (main example_lib file_root_world) = Returned ?z" by simp
  from f have f2: "fs (snd (main example_lib file_root_world)) = fs file_root_world" by simp
  from a o x m x1 e1 e2 b x2 s l f1 f2 show ?thesis by blast
qed

theorem main_fatal_counterexample:
  "\<not> is_dir (fs file_root_world) IN_DIR \<and>
   fst (main example_lib file_root_world) =
     Returned \<lparr>count_total = 0, count_done = 0, count_skipped = 0, count_failed = 0\<rparr> \<and>
   stdout (snd (main example_lib file_root_world)) =
     [''=== TIFF -> PNG Done ==='',
      ''Input dir : /home/u/public/patterns'',
      ''Output dir: /home/u/public/patterns_png'',
      ''Total TIFF: 0'', ''Converted : 0'', ''Skipped   : 0'', ''Failed    : 0''] \<and>
   exit_status (fst (main example_lib file_root_world)) = 0"
  by code_simp

subsection \<open>C6: a failed conversion is counted and reported\<close>












end
